theory Spec2Isabelle
  imports Main
begin

section \<open>Values exchanged with clients\<close>

text \<open>
  A connection (a \<^verbatim>\<open>ws\<close> object of the source) is identified by the number of the
  \<^verbatim>\<open>connection\<close> event that created it; object identity \<^verbatim>\<open>===\<close> is equality of these
  numbers. Identifiers returned by \<^verbatim>\<open>uid()\<close> (a random base-36 string in the source) are
  modelled by a counter kept in the state: every call returns a new, non-empty (truthy)
  identifier, which is what the handlers rely on. Timer handles returned by
  \<^verbatim>\<open>setTimeout\<close> are numbered in the same way.
\<close>

type_synonym ws = nat
type_synonym uid = nat
type_synonym timeout = nat

text \<open>
  A \<^verbatim>\<open>payload\<close> field is an arbitrary JSON value. Only its truthiness matters to the
  server (\<^verbatim>\<open>msg.payload || {}\<close>); objects and arrays are always truthy and are kept as
  their JSON text. A missing field reads as \<^verbatim>\<open>undefined\<close>.
\<close>

datatype jsval = JUndefined | JNull | JBool bool | JNum int | JStr string | JObject string

fun truthy :: "jsval \<Rightarrow> bool" where
  "truthy JUndefined = False"
| "truthy JNull = False"
| "truthy (JBool b) = b"
| "truthy (JNum n) = (n \<noteq> 0)"
| "truthy (JStr s) = (s \<noteq> [])"
| "truthy (JObject _) = True"

definition emptyObject :: jsval where
  "emptyObject = JObject ''{}''"

definition orEmpty :: "jsval \<Rightarrow> jsval" where
  \<comment> \<open>\<^verbatim>\<open>msg.payload || {}\<close>\<close>
  "orEmpty v = (if truthy v then v else emptyObject)"

text \<open>
  A parsed message, by its \<^verbatim>\<open>type\<close> field. The fields of a \<^verbatim>\<open>join\<close> are, in this order,
  \<^verbatim>\<open>mode\<close>, \<^verbatim>\<open>tier\<close>, \<^verbatim>\<open>tankName\<close> and \<^verbatim>\<open>username\<close>. A string field is \<open>None\<close> when it is
  missing or falsy and not a string, and \<open>Some s\<close> when it is the string \<open>s\<close> (the empty
  string is falsy too, which \<open>strOr\<close> decides). The \<^verbatim>\<open>tier\<close> field is \<open>None\<close> when missing
  or falsy and \<open>Some n\<close> when it is the integer number \<open>n\<close> (\<open>0\<close> is falsy, which
  \<open>tierOr\<close> decides); tiers that are not integer numbers are outside this model, and so
  are truthy fields that are not strings and whose conversion by \<^verbatim>\<open>String()\<close> throws or
  gives the empty string.
  \<open>Other\<close> is any other value \<^verbatim>\<open>JSON.parse\<close> returns except \<^verbatim>\<open>null\<close>: its \<^verbatim>\<open>type\<close> is none of
  the four the handler looks for.
\<close>

datatype msg =
    Join "string option" "int option" "string option" "string option"
  | Input jsval
  | Init jsval
  | Snapshot jsval
  | Other

text \<open>
  What \<^verbatim>\<open>JSON.parse(buf.toString("utf8"))\<close> does with a received frame: it throws, or it
  returns \<^verbatim>\<open>null\<close>, or it returns another value.
\<close>

datatype frame = Unparseable | JsonNull | Json msg

datatype need = NeedExact nat | NeedRange nat nat

datatype out_text =
    Searching nat need          \<comment> \<open>"Searching... q/need players"\<close>
  | MatchFound                  \<comment> \<open>"Match found!"\<close>
  | PlayerDisconnected          \<comment> \<open>"A player disconnected. Match ended."\<close>

record player =
  p_id :: uid
  p_tankName :: "string option"
  p_username :: string

datatype out_msg =
    Welcome uid
  | RoomInfo "uid option" "uid option" "player list" out_text
  | HostStart
  | InputOut uid jsval
  | InitOut jsval
  | SnapshotOut jsval
  | Info out_text

datatype error = TypeError

section \<open>The three registries and the transport\<close>

record client =
  c_id :: uid
  c_tier :: "int option"
  c_tankName :: "string option"
  c_mode :: "string option"
  c_roomId :: "uid option"
  c_username :: string

record bucket =
  queue :: "ws list"
  timer :: "timeout option"
  startedAt :: nat

record room =
  hostWs :: "ws option"
  sockets :: "ws list"
  players :: "player list"
  r_mode :: string
  r_tier :: int

text \<open>
  \<open>clients\<close>, \<open>waiting\<close> and \<open>rooms\<close> are the three \<^verbatim>\<open>Map\<close>s of the source. The rest is the
  environment the handlers act on: which sockets have \<^verbatim>\<open>readyState === OPEN\<close>, the
  sequence of \<^verbatim>\<open>ws.send\<close> calls made so far, the pending \<^verbatim>\<open>setTimeout\<close> callbacks (each
  with the \<^verbatim>\<open>mode\<close> and \<^verbatim>\<open>tier\<close> its closure captured and its delay in milliseconds), and
  the counters for fresh handles, identifiers and connections.
\<close>

record state =
  clients :: "ws \<rightharpoonup> client"
  waiting :: "string \<rightharpoonup> bucket"
  rooms :: "uid \<rightharpoonup> room"
  isOpen :: "ws \<Rightarrow> bool"
  sent :: "(ws \<times> out_msg) list"
  timeouts :: "timeout \<rightharpoonup> (string \<times> int \<times> nat)"
  nextTimeout :: nat
  nextUid :: nat
  nextWs :: nat

definition init :: state where
  "init = \<lparr> clients = Map.empty, waiting = Map.empty, rooms = Map.empty,
            isOpen = (\<lambda>_. False), sent = [], timeouts = Map.empty,
            nextTimeout = 0, nextUid = 0, nextWs = 0 \<rparr>"

definition uid :: "state \<Rightarrow> uid \<times> state" where
  "uid st = (nextUid st, st\<lparr>nextUid := Suc (nextUid st)\<rparr>)"

definition setTimeout :: "string \<times> int \<Rightarrow> nat \<Rightarrow> state \<Rightarrow> timeout \<times> state" where
  "setTimeout cl delay st =
     (nextTimeout st,
      st\<lparr>timeouts := (timeouts st)(nextTimeout st \<mapsto> (fst cl, snd cl, delay)),
         nextTimeout := Suc (nextTimeout st)\<rparr>)"

definition clearTimeout :: "timeout \<Rightarrow> state \<Rightarrow> state" where
  "clearTimeout h st = st\<lparr>timeouts := (timeouts st)(h := None)\<rparr>"

definition clearTimer :: "timeout option \<Rightarrow> state \<Rightarrow> state" where
  \<comment> \<open>\<^verbatim>\<open>if(bucket.timer) clearTimeout(bucket.timer)\<close>\<close>
  "clearTimer h st = (case h of None \<Rightarrow> st | Some x \<Rightarrow> clearTimeout x st)"

definition closeSocket :: "ws \<Rightarrow> state \<Rightarrow> state" where
  \<comment> \<open>\<^verbatim>\<open>s.close()\<close>: the socket leaves the OPEN state\<close>
  "closeSocket s st = st\<lparr>isOpen := (isOpen st)(s := False)\<rparr>"

section \<open>Mode tables and bucket keys\<close>

definition needMin :: "string \<Rightarrow> nat" where
  "needMin m = (if m = ''ONLINE2V2'' then 4 else 2)"

definition needExact :: "string \<Rightarrow> nat" where
  "needExact m = (if m = ''ONLINE1V1'' then 2 else if m = ''ONLINE2V2'' then 4 else 0)"

definition maxPlayers :: "string \<Rightarrow> nat" where
  "maxPlayers m = (if m = ''ONLINEPVP'' then 6 else needExact m)"

definition digitChar :: "nat \<Rightarrow> char" where
  "digitChar d = ''0123456789'' ! (d mod 10)"

fun showNat :: "nat \<Rightarrow> string" where
  "showNat n = (if n < 10 then [digitChar n] else showNat (n div 10) @ [digitChar (n mod 10)])"

declare showNat.simps [simp del]

definition showInt :: "int \<Rightarrow> string" where
  "showInt i = (if i < 0 then CHR ''-'' # showNat (nat (- i)) else showNat (nat i))"

definition keyOf :: "string \<Rightarrow> int \<Rightarrow> string" where
  \<comment> \<open>the template string; a tier is printed with all its digits, as the source does
      below \<open>10\<^sup>2\<^sup>1\<close>\<close>
  "keyOf m t = m @ ''|'' @ showInt t"

definition needOf :: "string \<Rightarrow> need" where
  \<comment> \<open>the "needed" part of the status text: the exact size, or "min-max"\<close>
  "needOf m = (if needExact m \<noteq> 0 then NeedExact (needExact m)
               else NeedRange (needMin m) (maxPlayers m))"

section \<open>Sending\<close>

definition send :: "ws \<Rightarrow> out_msg \<Rightarrow> state \<Rightarrow> state" where
  "send s obj st = (if isOpen st s then st\<lparr>sent := sent st @ [(s, obj)]\<rparr> else st)"

definition broadcast :: "ws list \<Rightarrow> out_msg \<Rightarrow> state \<Rightarrow> state" where
  "broadcast q obj st = fold (\<lambda>s. send s obj) q st"

section \<open>cleanup\<close>

definition leaveQueue :: "ws \<Rightarrow> client \<Rightarrow> state \<Rightarrow> state" where
  "leaveQueue w c st =
     (case (c_mode c, c_tier c) of
        (Some m, Some t) \<Rightarrow>
          if m \<noteq> [] then
            (let k = keyOf m t in
             case waiting st k of
               None \<Rightarrow> st
             | Some b \<Rightarrow>
                 (let q = filter (\<lambda>x. x \<noteq> w) (queue b) in
                  if q = [] then (clearTimer (timer b) st)\<lparr>waiting := (waiting st)(k := None)\<rparr>
                  else st\<lparr>waiting := (waiting st)(k \<mapsto> b\<lparr>queue := q\<rparr>)\<rparr>))
          else st
      | _ \<Rightarrow> st)"

definition closeAll :: "ws \<Rightarrow> ws list \<Rightarrow> state \<Rightarrow> state" where
  \<comment> \<open>the loop over \<^verbatim>\<open>room.sockets\<close>: notify every socket but \<open>w\<close>, close every socket\<close>
  "closeAll w xs st =
     fold (\<lambda>s acc. closeSocket s
                     (if s \<noteq> w then send s (Info PlayerDisconnected) acc else acc)) xs st"

definition closeRoom :: "ws \<Rightarrow> client \<Rightarrow> state \<Rightarrow> state" where
  "closeRoom w c st =
     (case c_roomId c of
        None \<Rightarrow> st
      | Some rid \<Rightarrow>
          (case rooms st rid of
             None \<Rightarrow> st
           | Some r \<Rightarrow>
               (let st1 = closeAll w (sockets r) st
                in st1\<lparr>rooms := (rooms st1)(rid := None)\<rparr>)))"

definition cleanup :: "ws \<Rightarrow> state \<Rightarrow> state" where
  "cleanup w st =
     (case clients st w of
        None \<Rightarrow> st
      | Some c \<Rightarrow>
          (let st1 = leaveQueue w c st;
               st2 = closeRoom w c st1
           in st2\<lparr>clients := (clients st2)(w := None)\<rparr>))"

section \<open>createRoomFromQueue and maybeStart\<close>

definition setRoomId :: "uid \<Rightarrow> ws \<Rightarrow> state \<Rightarrow> state" where
  \<comment> \<open>\<^verbatim>\<open>clients.get(s).roomId = roomId\<close>, reached only for registered sockets\<close>
  "setRoomId rid s st =
     (case clients st s of
        None \<Rightarrow> st
      | Some c \<Rightarrow> st\<lparr>clients := (clients st)(s \<mapsto> c\<lparr>c_roomId := Some rid\<rparr>)\<rparr>)"

definition playerOf :: "client \<Rightarrow> player" where
  "playerOf cc = \<lparr> p_id = c_id cc, p_tankName = c_tankName cc, p_username = c_username cc \<rparr>"

definition firstOf :: "'a list \<Rightarrow> 'a option" where
  \<comment> \<open>\<^verbatim>\<open>sockets[0]\<close>, \<^verbatim>\<open>undefined\<close> on an empty array\<close>
  "firstOf xs = (case xs of [] \<Rightarrow> None | x # _ \<Rightarrow> Some x)"

definition spliceQueue :: "string \<Rightarrow> int \<Rightarrow> nat \<Rightarrow> bucket \<Rightarrow> state \<Rightarrow> state" where
  \<comment> \<open>the bucket after \<^verbatim>\<open>q.splice(0, takeN)\<close>: deleted with its timer cancelled when
      emptied, else kept and its remaining queue told the new count\<close>
  "spliceQueue m t takeN b st =
     (let k = keyOf m t; q = drop takeN (queue b) in
      if q = []
      then (clearTimer (timer b) st)\<lparr>waiting := (waiting st)(k := None)\<rparr>
      else broadcast q (RoomInfo None None [] (Searching (length q) (needOf m)))
             (st\<lparr>waiting := (waiting st)(k \<mapsto> b\<lparr>queue := q\<rparr>)\<rparr>))"

definition announce :: "uid \<Rightarrow> ws list \<Rightarrow> client list \<Rightarrow> player list \<Rightarrow> state \<Rightarrow> state" where
  \<comment> \<open>the two notifications that end \<^verbatim>\<open>createRoomFromQueue\<close>; \<open>ccs\<close> are the registry
      entries of \<open>socks\<close>, so the first of them is \<^verbatim>\<open>clients.get(hostWs)\<close>\<close>
  "announce roomId socks ccs ps st =
     (let st1 = fold (\<lambda>s. send s (RoomInfo (Some roomId) (map_option c_id (firstOf ccs))
                                    ps MatchFound)) socks st
      in case firstOf socks of
           None \<Rightarrow> st1
         | Some h \<Rightarrow> send h HostStart st1)"

definition createRoomFromQueue :: "string \<Rightarrow> int \<Rightarrow> nat \<Rightarrow> state \<Rightarrow> error + state" where
  "createRoomFromQueue m t takeN st =
     (case waiting st (keyOf m t) of
        None \<Rightarrow> Inr st
      | Some b \<Rightarrow>
          if takeN = 0 then Inr st
          else
            (let socks = take takeN (queue b);
                 st1 = spliceQueue m t takeN b st;
                 (roomId, st2) = uid st1
             in case those (map (clients st2) socks) of
                  None \<Rightarrow> Inl TypeError
                | Some ccs \<Rightarrow>
                    (let ps = map playerOf ccs;
                         st3 = fold (setRoomId roomId) socks st2;
                         st4 = st3\<lparr>rooms := (rooms st3)(roomId \<mapsto>
                                 \<lparr> hostWs = firstOf socks, sockets = socks, players = ps,
                                   r_mode = m, r_tier = t \<rparr>)\<rparr>
                     in Inr (announce roomId socks ccs ps st4))))"

definition timerCallback :: "string \<Rightarrow> int \<Rightarrow> state \<Rightarrow> error + state" where
  "timerCallback m t st =
     (let k = keyOf m t in
      case waiting st k of
        None \<Rightarrow> Inr st
      | Some b \<Rightarrow>
          (let st1 = st\<lparr>waiting := (waiting st)(k \<mapsto> b\<lparr>timer := None\<rparr>)\<rparr>;
               n = min (maxPlayers m) (length (queue b))
           in if n \<ge> needMin m then createRoomFromQueue m t n st1 else Inr st1))"

definition maybeStart :: "nat \<Rightarrow> string \<Rightarrow> int \<Rightarrow> state \<Rightarrow> error + state" where
  "maybeStart now m t st =
     (let k = keyOf m t in
      case waiting st k of
        None \<Rightarrow> Inr st
      | Some b \<Rightarrow>
          (let q = queue b; exact = needExact m; maxP = maxPlayers m; minP = needMin m in
           if exact \<noteq> 0 then
             (if length q \<ge> exact then createRoomFromQueue m t exact st else Inr st)
           else if length q \<ge> maxP then createRoomFromQueue m t maxP st
           else if length q \<ge> minP \<and> timer b = None then
             (let (h, st1) = setTimeout (m, t) 6500 st
              in Inr (st1\<lparr>waiting := (waiting st1)(k \<mapsto> b\<lparr>timer := Some h, startedAt := now\<rparr>)\<rparr>))
           else Inr st))"

section \<open>The connection, message, close, error and timer handlers\<close>

definition strOr :: "string option \<Rightarrow> string \<Rightarrow> string" where
  \<comment> \<open>\<^verbatim>\<open>String(v || d)\<close>\<close>
  "strOr v d = (case v of None \<Rightarrow> d | Some s \<Rightarrow> if s = [] then d else s)"

definition tierOr :: "int option \<Rightarrow> int" where
  \<comment> \<open>\<^verbatim>\<open>Number(msg.tier || 1)\<close>\<close>
  "tierOr v = (case v of None \<Rightarrow> 1 | Some n \<Rightarrow> if n = 0 then 1 else n)"

definition isSpace :: "char \<Rightarrow> bool" where
  "isSpace ch = (ch \<in> set [CHR '' '', CHR 0x09, CHR 0x0A, CHR 0x0B, CHR 0x0C, CHR 0x0D])"

definition trim :: "string \<Rightarrow> string" where
  \<comment> \<open>\<^verbatim>\<open>.trim()\<close>, on the ASCII white space\<close>
  "trim s = rev (dropWhile isSpace (rev (dropWhile isSpace s)))"

definition enqueue :: "ws \<Rightarrow> bucket option \<Rightarrow> bucket" where
  \<comment> \<open>the bucket found or made for the key, with the connection pushed unless already queued\<close>
  "enqueue w bo =
     (let b = (case bo of
                 None \<Rightarrow> \<lparr> queue = [], timer = None, startedAt = 0 \<rparr>
               | Some b0 \<Rightarrow> b0)
      in if w \<in> set (queue b) then b else b\<lparr>queue := queue b @ [w]\<rparr>)"

definition enroll ::
  "ws \<Rightarrow> client \<Rightarrow> string option \<Rightarrow> int option \<Rightarrow> string option \<Rightarrow> string option
     \<Rightarrow> state \<Rightarrow> state" where
  \<comment> \<open>the \<^verbatim>\<open>join\<close> branch up to the status broadcast\<close>
  "enroll w c fm ft fn fu st =
     (let t = tierOr ft;
          m = strOr fm ''ONLINEPVP'';
          c1 = c\<lparr>c_tier := Some t, c_tankName := Some (strOr fn ''Tank''), c_mode := Some m,
                 c_username := take 16 (trim (strOr fu []))\<rparr>;
          st1 = st\<lparr>clients := (clients st)(w \<mapsto> c1)\<rparr>;
          k = keyOf m t;
          b1 = enqueue w (waiting st1 k);
          st2 = st1\<lparr>waiting := (waiting st1)(k \<mapsto> b1)\<rparr>
      in broadcast (queue b1)
           (RoomInfo None None [] (Searching (length (queue b1)) (needOf m))) st2)"

definition onJoin ::
  "nat \<Rightarrow> ws \<Rightarrow> client \<Rightarrow> string option \<Rightarrow> int option \<Rightarrow> string option \<Rightarrow> string option
     \<Rightarrow> state \<Rightarrow> error + state" where
  "onJoin now w c fm ft fn fu st =
     maybeStart now (strOr fm ''ONLINEPVP'') (tierOr ft) (enroll w c fm ft fn fu st)"

definition onRelay :: "ws \<Rightarrow> client \<Rightarrow> msg \<Rightarrow> state \<Rightarrow> state" where
  "onRelay w c ms st =
     (case c_roomId c of
        None \<Rightarrow> st
      | Some rid \<Rightarrow>
          (case rooms st rid of
             None \<Rightarrow> st
           | Some r \<Rightarrow>
               (case ms of
                  Input p \<Rightarrow>
                    (if hostWs r \<noteq> Some w
                     then (case hostWs r of
                             None \<Rightarrow> st
                           | Some h \<Rightarrow> send h (InputOut (c_id c) (orEmpty p)) st)
                     else st)
                | Init p \<Rightarrow>
                    (if hostWs r = Some w
                     then fold (\<lambda>s acc. if s \<noteq> w then send s (InitOut (orEmpty p)) acc else acc)
                            (sockets r) st
                     else st)
                | Snapshot p \<Rightarrow>
                    (if hostWs r = Some w
                     then fold (\<lambda>s acc. if s \<noteq> w then send s (SnapshotOut (orEmpty p)) acc else acc)
                            (sockets r) st
                     else st)
                | _ \<Rightarrow> st)))"

definition onMessage :: "nat \<Rightarrow> ws \<Rightarrow> frame \<Rightarrow> state \<Rightarrow> error + state" where
  "onMessage now w fr st =
     (case fr of
        Unparseable \<Rightarrow> Inr st
      | _ \<Rightarrow>
          (case clients st w of
             None \<Rightarrow> Inr st
           | Some c \<Rightarrow>
               (case fr of
                  JsonNull \<Rightarrow> Inl TypeError
                | Json (Join fm ft fn fu) \<Rightarrow> onJoin now w c fm ft fn fu st
                | Json Other \<Rightarrow> Inr st
                | Json ms \<Rightarrow> Inr (onRelay w c ms st)
                | Unparseable \<Rightarrow> Inr st)))"

definition onConnection :: "state \<Rightarrow> state" where
  "onConnection st =
     (let w = nextWs st;
          st0 = st\<lparr>nextWs := Suc w, isOpen := (isOpen st)(w := True)\<rparr>;
          (i, st1) = uid st0;
          st2 = st1\<lparr>clients := (clients st1)(w \<mapsto>
                  \<lparr> c_id = i, c_tier = None, c_tankName = None, c_mode = None,
                    c_roomId = None, c_username = [] \<rparr>)\<rparr>
      in send w (Welcome i) st2)"

definition onTimeout :: "timeout \<Rightarrow> state \<Rightarrow> error + state" where
  "onTimeout h st =
     (case timeouts st h of
        None \<Rightarrow> Inr st
      | Some (m, t, d) \<Rightarrow> timerCallback m t (st\<lparr>timeouts := (timeouts st)(h := None)\<rparr>))"

text \<open>
  The events of the single-threaded loop. A \<open>Message\<close> carries the value of
  \<^verbatim>\<open>Date.now()\<close> at its arrival. When the transport emits \<^verbatim>\<open>close\<close> or \<^verbatim>\<open>error\<close> the socket
  has already left the OPEN state. An exception that leaves a handler is uncaught and ends
  the process: the run stops with \<open>Inl\<close>.
\<close>

datatype event =
    Connection
  | Message ws frame nat
  | Close ws
  | Error ws
  | Timeout timeout

fun step :: "event \<Rightarrow> state \<Rightarrow> error + state" where
  "step Connection st = Inr (onConnection st)"
| "step (Message w fr now) st = onMessage now w fr st"
| "step (Close w) st = Inr (cleanup w (closeSocket w st))"
| "step (Error w) st = Inr (cleanup w (closeSocket w st))"
| "step (Timeout h) st = onTimeout h st"

fun run :: "event list \<Rightarrow> state \<Rightarrow> error + state" where
  "run [] st = Inr st"
| "run (e # es) st = (case step e st of Inl x \<Rightarrow> Inl x | Inr st1 \<Rightarrow> run es st1)"

text \<open>
  Where a run from the initial state ends: the state it reaches (the initial state again
  when the process has crashed on the way), and whether it crashed.
\<close>

definition final :: "event list \<Rightarrow> state" where
  "final es = (case run es init of Inl _ \<Rightarrow> init | Inr st \<Rightarrow> st)"

definition crashes :: "event list \<Rightarrow> bool" where
  "crashes es = (case run es init of Inl _ \<Rightarrow> True | Inr _ \<Rightarrow> False)"

text \<open>A \<^verbatim>\<open>join\<close> frame with the given mode and tier and no names, arriving at time 0.\<close>

definition joinEv :: "ws \<Rightarrow> string \<Rightarrow> int \<Rightarrow> event" where
  "joinEv w m t = Message w (Json (Join (Some m) (Some t) None None)) 0"

text \<open>
  Two connections, the first of them waiting for a one-against-one match in tier 1.
\<close>

definition oneWaiting :: state where
  "oneWaiting = final [Connection, Connection, joinEv 0 ''ONLINE1V1'' 1]"

text \<open>
  Two connections waiting for a free-for-all match in tier 1, with the window timer armed.
\<close>

definition twoQueued :: state where
  "twoQueued = final [Connection, Connection, joinEv 0 ''ONLINEPVP'' 1, joinEv 1 ''ONLINEPVP'' 1]"

text \<open>
  Six connections with the first five waiting for a free-for-all match; two that waited for
  one, of which the second has left; and two connections with the first one waiting.
\<close>

definition fiveQueued :: state where
  "fiveQueued = final [Connection, Connection, Connection, Connection, Connection, Connection,
     joinEv 0 ''ONLINEPVP'' 1, joinEv 1 ''ONLINEPVP'' 1, joinEv 2 ''ONLINEPVP'' 1,
     joinEv 3 ''ONLINEPVP'' 1, joinEv 4 ''ONLINEPVP'' 1]"

definition oneLeft :: state where
  "oneLeft = final [Connection, Connection, joinEv 0 ''ONLINEPVP'' 1, joinEv 1 ''ONLINEPVP'' 1,
     Close 1]"

definition onePvp :: state where
  "onePvp = final [Connection, Connection, joinEv 0 ''ONLINEPVP'' 1]"

text \<open>
  Two connections matched one against one (connection 0 is the host of room 2), and the
  same run followed by an \<^verbatim>\<open>input\<close> message with payload \<open>p\<close> from connection 1.
\<close>

definition matched :: state where
  "matched = final [Connection, Connection, joinEv 0 ''ONLINE1V1'' 1, joinEv 1 ''ONLINE1V1'' 1]"


definition relayEvents :: "jsval \<Rightarrow> event list" where
  "relayEvents p = [Connection, Connection, joinEv 0 ''ONLINE1V1'' 1, joinEv 1 ''ONLINE1V1'' 1,
                    Message 1 (Json (Input p)) 0]"

text \<open>
  Connections 0 and 1 are matched in room 3; connection 1 joins again while matched and is
  matched with connection 2 in room 4; then connection 1 disconnects.
\<close>

definition sharedMember :: "event list" where
  "sharedMember = [Connection, Connection, Connection,
     joinEv 0 ''ONLINE1V1'' 1, joinEv 1 ''ONLINE1V1'' 1,
     joinEv 1 ''ONLINE1V1'' 1, joinEv 2 ''ONLINE1V1'' 1, Close 1]"

text \<open>
  The timer discipline, as a relation between the buckets, the pending timers and the next
  handle: every pending timer has a handle already given out and is the timer recorded in
  the bucket of the mode and tier it was armed for, and the timer recorded in a bucket is
  pending and was armed for the key of that bucket.
\<close>

definition timersInv ::
  "(string \<rightharpoonup> bucket) \<Rightarrow> (timeout \<rightharpoonup> (string \<times> int \<times> nat)) \<Rightarrow> nat \<Rightarrow> bool" where
  "timersInv wt ts nx \<longleftrightarrow>
     (\<forall>h m t d. ts h = Some (m, t, d) \<longrightarrow>
        h < nx \<and> (\<exists>b. wt (keyOf m t) = Some b \<and> timer b = Some h))
   \<and> (\<forall>k b h. wt k = Some b \<and> timer b = Some h \<longrightarrow>
        (\<exists>m t d. ts h = Some (m, t, d) \<and> keyOf m t = k))"

definition timersOk :: "state \<Rightarrow> bool" where
  "timersOk st = timersInv (waiting st) (timeouts st) (nextTimeout st)"

text \<open>
  What ties sessions, rooms and queues together in every reachable state: a session whose
  room reference names an existing room is a member of that room; a registered member of an
  existing room has a room reference; room references are identifiers already given out;
  and the members of rooms, the registered connections and the queued connections are
  connections already made.
\<close>

definition roomsInv ::
  "(ws \<rightharpoonup> client) \<Rightarrow> (uid \<rightharpoonup> room) \<Rightarrow> (string \<rightharpoonup> bucket) \<Rightarrow> nat \<Rightarrow> nat \<Rightarrow> bool" where
  "roomsInv cl rm wt nu nw \<longleftrightarrow>
     (\<forall>w c rid r. cl w = Some c \<and> c_roomId c = Some rid \<and> rm rid = Some r \<longrightarrow> w \<in> set (sockets r))
   \<and> (\<forall>rid r w c. rm rid = Some r \<and> w \<in> set (sockets r) \<and> cl w = Some c \<longrightarrow> c_roomId c \<noteq> None)
   \<and> (\<forall>w c rid. cl w = Some c \<and> c_roomId c = Some rid \<longrightarrow> rid < nu)
   \<and> (\<forall>rid r w. rm rid = Some r \<and> w \<in> set (sockets r) \<longrightarrow> w < nw)
   \<and> (\<forall>w c. cl w = Some c \<longrightarrow> w < nw)
   \<and> (\<forall>k b w. wt k = Some b \<and> w \<in> set (queue b) \<longrightarrow> w < nw)"

definition roomsOk :: "state \<Rightarrow> bool" where
  "roomsOk st = roomsInv (clients st) (rooms st) (waiting st) (nextUid st) (nextWs st)"


text \<open>
  Two matched connections of which the host has left; and two matched connections of
  which the host has sent a second \<^verbatim>\<open>join\<close>.
\<close>

definition staleReference :: "event list" where
  "staleReference = [Connection, Connection, joinEv 0 ''ONLINE1V1'' 1, joinEv 1 ''ONLINE1V1'' 1,
     Close 0]"

definition queuedWhileMatched :: "event list" where
  "queuedWhileMatched = [Connection, Connection, joinEv 0 ''ONLINE1V1'' 1,
     joinEv 1 ''ONLINE1V1'' 1, joinEv 0 ''ONLINE1V1'' 1]"

section \<open>Basic facts\<close>

lemmas run_defs = final_def crashes_def joinEv_def init_def onConnection_def uid_def send_def
  onMessage_def onJoin_def enroll_def enqueue_def tierOr_def strOr_def trim_def keyOf_def
  showInt_def showNat.simps digitChar_def broadcast_def needOf_def needExact_def needMin_def
  maxPlayers_def maybeStart_def createRoomFromQueue_def spliceQueue_def announce_def
  setRoomId_def firstOf_def playerOf_def clearTimer_def clearTimeout_def setTimeout_def
  cleanup_def leaveQueue_def closeRoom_def closeAll_def closeSocket_def onRelay_def onTimeout_def
  timerCallback_def orEmpty_def emptyObject_def isSpace_def Let_def

subsection \<open>What each operation leaves alone, and what it sends\<close>

lemma fold_keeps: "(\<And>s x. g (f s x) = g x) \<Longrightarrow> g (fold f xs x) = g x"
  by (induction xs arbitrary: x) simp_all

lemma send_fields [simp]:
  "clients (send s obj st) = clients st"
  "waiting (send s obj st) = waiting st"
  "rooms (send s obj st) = rooms st"
  "isOpen (send s obj st) = isOpen st"
  "timeouts (send s obj st) = timeouts st"
  "nextTimeout (send s obj st) = nextTimeout st"
  "nextUid (send s obj st) = nextUid st"
  "nextWs (send s obj st) = nextWs st"
  by (simp_all add: send_def)

lemma sent_send: "sent (send s obj st) = sent st @ (if isOpen st s then [(s, obj)] else [])"
  by (simp add: send_def)

lemma broadcast_fields [simp]:
  "clients (broadcast q obj st) = clients st"
  "waiting (broadcast q obj st) = waiting st"
  "rooms (broadcast q obj st) = rooms st"
  "isOpen (broadcast q obj st) = isOpen st"
  "timeouts (broadcast q obj st) = timeouts st"
  "nextTimeout (broadcast q obj st) = nextTimeout st"
  "nextUid (broadcast q obj st) = nextUid st"
  "nextWs (broadcast q obj st) = nextWs st"
  by (simp_all add: broadcast_def fold_keeps)

lemma sent_fold_send:
  "sent (fold (\<lambda>s. send s obj) q st) = sent st @ map (\<lambda>s. (s, obj)) (filter (isOpen st) q)"
  by (induction q arbitrary: st) (simp_all add: sent_send fold_keeps)

lemma sent_broadcast:
  "sent (broadcast q obj st) = sent st @ map (\<lambda>s. (s, obj)) (filter (isOpen st) q)"
  by (simp add: broadcast_def sent_fold_send)

lemma setRoomId_fields [simp]:
  "waiting (setRoomId rid s st) = waiting st"
  "rooms (setRoomId rid s st) = rooms st"
  "isOpen (setRoomId rid s st) = isOpen st"
  "sent (setRoomId rid s st) = sent st"
  "timeouts (setRoomId rid s st) = timeouts st"
  "nextTimeout (setRoomId rid s st) = nextTimeout st"
  "nextUid (setRoomId rid s st) = nextUid st"
  "nextWs (setRoomId rid s st) = nextWs st"
  by (simp_all add: setRoomId_def split: option.splits)

lemma clients_setRoomId:
  "clients (setRoomId rid s st) =
     (clients st)(s := map_option (\<lambda>c. c\<lparr>c_roomId := Some rid\<rparr>) (clients st s))"
  by (auto simp: setRoomId_def split: option.splits)

lemma clients_fold_setRoomId:
  "clients (fold (setRoomId rid) xs st) x =
     (if x \<in> set xs then map_option (\<lambda>c. c\<lparr>c_roomId := Some rid\<rparr>) (clients st x)
      else clients st x)"
  by (induction xs arbitrary: st) (auto simp: clients_setRoomId map_option.compositionality comp_def)

lemma clearTimer_fields [simp]:
  "clients (clearTimer h st) = clients st"
  "waiting (clearTimer h st) = waiting st"
  "rooms (clearTimer h st) = rooms st"
  "isOpen (clearTimer h st) = isOpen st"
  "sent (clearTimer h st) = sent st"
  "nextTimeout (clearTimer h st) = nextTimeout st"
  "nextUid (clearTimer h st) = nextUid st"
  "nextWs (clearTimer h st) = nextWs st"
  by (simp_all add: clearTimer_def clearTimeout_def split: option.splits)

lemma timeouts_clearTimer:
  "timeouts (clearTimer h st) = (case h of None \<Rightarrow> timeouts st | Some x \<Rightarrow> (timeouts st)(x := None))"
  by (simp add: clearTimer_def clearTimeout_def split: option.splits)

subsection \<open>The effect of createRoomFromQueue\<close>

lemma those_map_Some:
  "(\<forall>x\<in>set xs. f x \<noteq> None) \<Longrightarrow> those (map f xs) = Some (map (\<lambda>x. the (f x)) xs)"
  by (induction xs) auto

lemma those_map_None:
  "x \<in> set xs \<Longrightarrow> f x = None \<Longrightarrow> those (map f xs) = None"
  by (induction xs) (auto split: option.splits)


lemma fold_send_fields [simp]:
  "clients (fold (\<lambda>s. send s obj) q st) = clients st"
  "waiting (fold (\<lambda>s. send s obj) q st) = waiting st"
  "rooms (fold (\<lambda>s. send s obj) q st) = rooms st"
  "isOpen (fold (\<lambda>s. send s obj) q st) = isOpen st"
  "timeouts (fold (\<lambda>s. send s obj) q st) = timeouts st"
  "nextTimeout (fold (\<lambda>s. send s obj) q st) = nextTimeout st"
  "nextUid (fold (\<lambda>s. send s obj) q st) = nextUid st"
  "nextWs (fold (\<lambda>s. send s obj) q st) = nextWs st"
  by (simp_all add: fold_keeps)

lemma fold_setRoomId_fields [simp]:
  "waiting (fold (setRoomId rid) xs st) = waiting st"
  "rooms (fold (setRoomId rid) xs st) = rooms st"
  "isOpen (fold (setRoomId rid) xs st) = isOpen st"
  "sent (fold (setRoomId rid) xs st) = sent st"
  "timeouts (fold (setRoomId rid) xs st) = timeouts st"
  "nextTimeout (fold (setRoomId rid) xs st) = nextTimeout st"
  "nextUid (fold (setRoomId rid) xs st) = nextUid st"
  "nextWs (fold (setRoomId rid) xs st) = nextWs st"
  by (simp_all add: fold_keeps)

lemma announce_fields [simp]:
  "clients (announce rid socks ccs ps st) = clients st"
  "waiting (announce rid socks ccs ps st) = waiting st"
  "rooms (announce rid socks ccs ps st) = rooms st"
  "isOpen (announce rid socks ccs ps st) = isOpen st"
  "timeouts (announce rid socks ccs ps st) = timeouts st"
  "nextTimeout (announce rid socks ccs ps st) = nextTimeout st"
  "nextUid (announce rid socks ccs ps st) = nextUid st"
  "nextWs (announce rid socks ccs ps st) = nextWs st"
  by (simp_all add: announce_def Let_def split: option.splits)

lemma spliceQueue_fields [simp]:
  "clients (spliceQueue m t n b st) = clients st"
  "rooms (spliceQueue m t n b st) = rooms st"
  "isOpen (spliceQueue m t n b st) = isOpen st"
  "nextTimeout (spliceQueue m t n b st) = nextTimeout st"
  "nextUid (spliceQueue m t n b st) = nextUid st"
  "nextWs (spliceQueue m t n b st) = nextWs st"
  by (simp_all add: spliceQueue_def Let_def)

lemma waiting_spliceQueue:
  "waiting (spliceQueue m t n b st) =
     (if drop n (queue b) = [] then (waiting st)(keyOf m t := None)
      else (waiting st)(keyOf m t \<mapsto> b\<lparr>queue := drop n (queue b)\<rparr>))"
  by (simp add: spliceQueue_def Let_def)

lemma timeouts_spliceQueue:
  "timeouts (spliceQueue m t n b st) =
     (if drop n (queue b) = [] then timeouts (clearTimer (timer b) st) else timeouts st)"
  by (simp add: spliceQueue_def Let_def)

lemma sent_spliceQueue:
  "sent (spliceQueue m t n b st) =
     sent st @ (if drop n (queue b) = [] then []
                else map (\<lambda>s. (s, RoomInfo None None [] (Searching (length (drop n (queue b))) (needOf m))))
                       (filter (isOpen st) (drop n (queue b))))"
  by (simp add: spliceQueue_def Let_def sent_broadcast)


lemma sent_announce:
  "sent (announce rid socks ccs ps st) =
     sent st @ map (\<lambda>s. (s, RoomInfo (Some rid) (map_option c_id (firstOf ccs)) ps MatchFound))
                 (filter (isOpen st) socks)
       @ (case firstOf socks of None \<Rightarrow> [] | Some h \<Rightarrow> if isOpen st h then [(h, HostStart)] else [])"
  by (simp add: announce_def Let_def sent_fold_send sent_send split: option.splits)

lemma createRoom_eq:
  assumes b: "waiting st (keyOf m t) = Some b" and n: "n \<noteq> 0"
      and reg: "\<forall>s\<in>set (take n (queue b)). clients st s \<noteq> None"
  shows "createRoomFromQueue m t n st =
     Inr (announce (nextUid st) (take n (queue b))
            (map (\<lambda>s. the (clients st s)) (take n (queue b)))
            (map (\<lambda>s. playerOf (the (clients st s))) (take n (queue b)))
            ((fold (setRoomId (nextUid st)) (take n (queue b))
                ((spliceQueue m t n b st)\<lparr>nextUid := Suc (nextUid st)\<rparr>))
              \<lparr>rooms := (rooms st)(nextUid st \<mapsto>
                 \<lparr> hostWs = firstOf (take n (queue b)), sockets = take n (queue b),
                   players = map (\<lambda>s. playerOf (the (clients st s))) (take n (queue b)),
                   r_mode = m, r_tier = t \<rparr>)\<rparr>))"
proof -
  have th: "those (map (clients st) (take n (queue b))) = Some (map (\<lambda>x. the (clients st x)) (take n (queue b)))"
    using those_map_Some[of "take n (queue b)" "clients st"] reg by simp
  show ?thesis
    using b n th
    by (simp add: createRoomFromQueue_def Let_def uid_def comp_def)
qed

lemma createRoom_crash:
  assumes b: "waiting st (keyOf m t) = Some b" and n: "n \<noteq> 0"
      and s: "s \<in> set (take n (queue b))" "clients st s = None"
  shows "createRoomFromQueue m t n st = Inl TypeError"
  using b n those_map_None[of s "take n (queue b)" "clients st"] s
  by (simp add: createRoomFromQueue_def Let_def uid_def)

lemma createRoom_ok:
  assumes b: "waiting st (keyOf m t) = Some b" and n: "n \<noteq> 0"
      and reg: "\<forall>s\<in>set (take n (queue b)). clients st s \<noteq> None"
  shows "\<exists>st'. createRoomFromQueue m t n st = Inr st'
     \<and> rooms st' = (rooms st)(nextUid st \<mapsto>
           \<lparr> hostWs = firstOf (take n (queue b)), sockets = take n (queue b),
             players = map (\<lambda>s. playerOf (the (clients st s))) (take n (queue b)),
             r_mode = m, r_tier = t \<rparr>)
     \<and> waiting st' = (if drop n (queue b) = [] then (waiting st)(keyOf m t := None)
                      else (waiting st)(keyOf m t \<mapsto> b\<lparr>queue := drop n (queue b)\<rparr>))
     \<and> timeouts st' = (if drop n (queue b) = [] then timeouts (clearTimer (timer b) st) else timeouts st)
     \<and> (\<forall>x. clients st' x = (if x \<in> set (take n (queue b))
                  then map_option (\<lambda>c. c\<lparr>c_roomId := Some (nextUid st)\<rparr>) (clients st x)
                  else clients st x))
     \<and> isOpen st' = isOpen st \<and> nextUid st' = Suc (nextUid st) \<and> nextWs st' = nextWs st
     \<and> nextTimeout st' = nextTimeout st
     \<and> sent st' = sent st
         @ (if drop n (queue b) = [] then []
            else map (\<lambda>s. (s, RoomInfo None None [] (Searching (length (drop n (queue b))) (needOf m))))
                   (filter (isOpen st) (drop n (queue b))))
         @ map (\<lambda>s. (s, RoomInfo (Some (nextUid st))
                          (map_option c_id (firstOf (map (\<lambda>s. the (clients st s)) (take n (queue b)))))
                          (map (\<lambda>s. playerOf (the (clients st s))) (take n (queue b))) MatchFound))
               (filter (isOpen st) (take n (queue b)))
         @ (case firstOf (take n (queue b)) of None \<Rightarrow> []
            | Some h \<Rightarrow> if isOpen st h then [(h, HostStart)] else [])"
  by (simp add: createRoom_eq[OF assms] clients_fold_setRoomId waiting_spliceQueue
       timeouts_spliceQueue sent_announce sent_spliceQueue split: option.splits)

lemma enroll_fields [simp]:
  "rooms (enroll w c fm ft fn fu st) = rooms st"
  "isOpen (enroll w c fm ft fn fu st) = isOpen st"
  "timeouts (enroll w c fm ft fn fu st) = timeouts st"
  "nextTimeout (enroll w c fm ft fn fu st) = nextTimeout st"
  "nextUid (enroll w c fm ft fn fu st) = nextUid st"
  "nextWs (enroll w c fm ft fn fu st) = nextWs st"
  by (simp_all add: enroll_def Let_def)

lemma waiting_enroll:
  "waiting (enroll w c fm ft fn fu st) =
     (waiting st)(keyOf (strOr fm ''ONLINEPVP'') (tierOr ft) \<mapsto>
        enqueue w (waiting st (keyOf (strOr fm ''ONLINEPVP'') (tierOr ft))))"
  by (simp add: enroll_def Let_def)

lemma clients_enroll:
  "clients (enroll w c fm ft fn fu st) =
     (clients st)(w \<mapsto> c\<lparr>c_tier := Some (tierOr ft), c_tankName := Some (strOr fn ''Tank''),
                          c_mode := Some (strOr fm ''ONLINEPVP''),
                          c_username := take 16 (trim (strOr fu []))\<rparr>)"
  by (simp add: enroll_def Let_def)

lemma sent_enroll:
  "sent (enroll w c fm ft fn fu st) =
     sent st @ map (\<lambda>s. (s, RoomInfo None None []
                     (Searching (length (queue (enqueue w (waiting st (keyOf (strOr fm ''ONLINEPVP'') (tierOr ft))))))
                        (needOf (strOr fm ''ONLINEPVP'')))))
        (filter (isOpen st) (queue (enqueue w (waiting st (keyOf (strOr fm ''ONLINEPVP'') (tierOr ft))))))"
  by (simp add: enroll_def Let_def sent_broadcast)

lemma onMessage_join:
  "clients st w = Some c \<Longrightarrow>
   onMessage now w (Json (Join fm ft fn fu)) st =
     maybeStart now (strOr fm ''ONLINEPVP'') (tierOr ft) (enroll w c fm ft fn fu st)"
  by (simp add: onMessage_def onJoin_def)

section \<open>Exact-size modes\<close>

text \<open>
  Claim C1. A registered connection \<open>w\<close> sends a \<^verbatim>\<open>join\<close> for a mode of exact size \<open>N\<close>
  (2 for ONLINE1V1, 4 for ONLINE2V2). \<open>bq\<close> is the bucket after the join has queued \<open>w\<close>.
  If its queue has reached \<open>N\<close> and the first \<open>N\<close> connections in it are still registered,
  the handler returns, and it has created a room whose members are exactly the first \<open>N\<close> of
  the queue in queue order, whose host is the head of the queue, and to which the session of
  every member points; the rest of the queue stays in the bucket, which is deleted when
  nothing is left. No other room changes.
\<close>

theorem exact_size_match:
  fixes st w c fm ft fn fu now
  defines "m \<equiv> strOr fm ''ONLINEPVP''" and "t \<equiv> tierOr ft"
  defines "N \<equiv> needExact m"
  defines "bq \<equiv> enqueue w (waiting st (keyOf m t))"
  assumes c: "clients st w = Some c"
      and N0: "N \<noteq> 0"
      and len: "N \<le> length (queue bq)"
      and reg: "\<forall>s\<in>set (take N (queue bq)). s \<noteq> w \<longrightarrow> clients st s \<noteq> None"
  shows "\<exists>st' r. onMessage now w (Json (Join fm ft fn fu)) st = Inr st'
     \<and> rooms st' (nextUid st) = Some r
     \<and> sockets r = take N (queue bq)
     \<and> hostWs r = Some (hd (queue bq))
     \<and> r_mode r = m \<and> r_tier r = t
     \<and> (\<forall>s\<in>set (take N (queue bq)). \<exists>c'. clients st' s = Some c' \<and> c_roomId c' = Some (nextUid st))
     \<and> waiting st' (keyOf m t) =
         (if drop N (queue bq) = [] then None else Some (bq\<lparr>queue := drop N (queue bq)\<rparr>))
     \<and> (\<forall>i. i \<noteq> nextUid st \<longrightarrow> rooms st' i = rooms st i)"
proof -
  let ?st3 = "enroll w c fm ft fn fu st"
  have w3: "waiting ?st3 (keyOf m t) = Some bq"
    by (simp add: waiting_enroll m_def t_def bq_def)
  have reg3: "\<forall>s\<in>set (take N (queue bq)). clients ?st3 s \<noteq> None"
    using reg by (auto simp: clients_enroll)
  have ne: "queue bq \<noteq> []" using len N0 by auto
  have ms: "maybeStart now m t ?st3 = createRoomFromQueue m t N ?st3"
    using w3 N0 len by (simp add: maybeStart_def Let_def N_def)
  from createRoom_ok[OF w3 N0 reg3] obtain st' where
    st': "createRoomFromQueue m t N ?st3 = Inr st'"
    and r: "rooms st' = (rooms ?st3)(nextUid ?st3 \<mapsto>
           \<lparr> hostWs = firstOf (take N (queue bq)), sockets = take N (queue bq),
             players = map (\<lambda>s. playerOf (the (clients ?st3 s))) (take N (queue bq)),
             r_mode = m, r_tier = t \<rparr>)"
    and wt: "waiting st' = (if drop N (queue bq) = [] then (waiting ?st3)(keyOf m t := None)
                      else (waiting ?st3)(keyOf m t \<mapsto> bq\<lparr>queue := drop N (queue bq)\<rparr>))"
    and cl: "\<forall>x. clients st' x = (if x \<in> set (take N (queue bq))
                  then map_option (\<lambda>c. c\<lparr>c_roomId := Some (nextUid ?st3)\<rparr>) (clients ?st3 x)
                  else clients ?st3 x)"
    by blast
  have hd: "firstOf (take N (queue bq)) = Some (hd (queue bq))"
    using ne N0 by (cases "queue bq"; cases N) (simp_all add: firstOf_def)
  have cl': "\<forall>s\<in>set (take N (queue bq)). \<exists>c'. clients st' s = Some c' \<and> c_roomId c' = Some (nextUid st)"
    using cl reg3 by auto
  show ?thesis
    using st' ms r wt cl' hd c by (simp add: onMessage_join m_def t_def)
qed


lemma oneWaiting_fields:
  "clients oneWaiting 1 = Some \<lparr> c_id = 1, c_tier = None, c_tankName = None, c_mode = None, c_roomId = None, c_username = [] \<rparr>"
  "waiting oneWaiting ''ONLINE1V1|1'' = Some \<lparr> queue = [0], timer = None, startedAt = 0 \<rparr>"
  "clients oneWaiting 0 = Some \<lparr> c_id = 0, c_tier = Some 1, c_tankName = Some ''Tank'', c_mode = Some ''ONLINE1V1'', c_roomId = None, c_username = [] \<rparr>"
  "nextUid oneWaiting = 2"
  by (simp_all add: oneWaiting_def run_defs)


theorem exact_size_match_witness:
  "\<exists>st' r. onMessage 5 1 (Json (Join (Some ''ONLINE1V1'') None None None)) oneWaiting = Inr st'
      \<and> rooms st' 2 = Some r \<and> sockets r = [0, 1] \<and> hostWs r = Some 0 \<and> waiting st' ''ONLINE1V1|1'' = None"
proof -
  have k: "keyOf ''ONLINE1V1'' 1 = ''ONLINE1V1|1''" by (simp add: run_defs)
  have e: "enqueue 1 (waiting oneWaiting ''ONLINE1V1|1'') = \<lparr> queue = [0, 1], timer = None, startedAt = 0 \<rparr>"
    by (simp add: oneWaiting_fields enqueue_def)
  show ?thesis
    using exact_size_match[where st = oneWaiting and w = 1 and fm = "Some ''ONLINE1V1''" and ft = None
        and now = 5 and fn = None and fu = None, OF oneWaiting_fields(1)]
    by (auto simp add: k oneWaiting_fields enqueue_def strOr_def tierOr_def needExact_def)
qed

text \<open>
  The scenario of the specification: three connections join ONLINE1V1 in tier 1, and the
  first two form room 4 while the third stays queued; a fourth join then forms room 5
  from the third and the fourth, and the bucket is gone.
\<close>

lemma three_then_a_fourth:
  "map_option sockets (rooms (final [Connection, Connection, Connection, Connection,
       joinEv 0 ''ONLINE1V1'' 1, joinEv 1 ''ONLINE1V1'' 1, joinEv 2 ''ONLINE1V1'' 1]) 4) = Some [0, 1]
   \<and> map_option queue (waiting (final [Connection, Connection, Connection, Connection,
       joinEv 0 ''ONLINE1V1'' 1, joinEv 1 ''ONLINE1V1'' 1, joinEv 2 ''ONLINE1V1'' 1]) ''ONLINE1V1|1'')
       = Some [2]
   \<and> map_option sockets (rooms (final [Connection, Connection, Connection, Connection,
       joinEv 0 ''ONLINE1V1'' 1, joinEv 1 ''ONLINE1V1'' 1, joinEv 2 ''ONLINE1V1'' 1,
       joinEv 3 ''ONLINE1V1'' 1]) 5) = Some [2, 3]
   \<and> waiting (final [Connection, Connection, Connection, Connection,
       joinEv 0 ''ONLINE1V1'' 1, joinEv 1 ''ONLINE1V1'' 1, joinEv 2 ''ONLINE1V1'' 1,
       joinEv 3 ''ONLINE1V1'' 1]) ''ONLINE1V1|1'' = None"
  by (simp add: run_defs)

section \<open>Exceptions that leave a handler\<close>

lemma null_message_throws:
  "clients st w = Some c \<Longrightarrow> onMessage now w JsonNull st = Inl TypeError"
  by (simp add: onMessage_def)

text \<open>
  Claim C6 says that no sequence of events makes a handler throw. Two runs from the initial
  state end in an uncaught \<open>TypeError\<close>. In the first a connected client sends the JSON text
  \<^verbatim>\<open>null\<close>: it parses, and \<^verbatim>\<open>msg.type\<close> reads a property of \<^verbatim>\<open>null\<close>. In the second
  connection 0 joins the one-against-one bucket of tier 1, joins again with tier 2 and
  disconnects: \<^verbatim>\<open>cleanup\<close> takes it out of the tier 2 bucket only, and when connection 1
  completes the tier 1 bucket, \<^verbatim>\<open>createRoomFromQueue\<close> reads \<^verbatim>\<open>cc.id\<close> of the missing
  registry entry of connection 0.
\<close>

theorem handlers_can_throw:
  "run [Connection, Message 0 JsonNull 0] init = Inl TypeError
   \<and> run [Connection, Connection, joinEv 0 ''ONLINE1V1'' 1, joinEv 0 ''ONLINE1V1'' 2, Close 0,
          joinEv 1 ''ONLINE1V1'' 1] init = Inl TypeError"
  by (simp add: run_defs)

section \<open>The order of the notifications of a new room\<close>

lemma map_the_clients:
  "\<forall>s\<in>set xs. clients st s \<noteq> None \<Longrightarrow> map (clients st) xs = map Some (map (\<lambda>s. the (clients st s)) xs)"
  by (induction xs) auto

text \<open>
  Claim C10. When \<^verbatim>\<open>createRoomFromQueue\<close> materialises a room from the first \<open>n\<close> queued
  connections, all of them registered, the messages it sends are, in this order: the new
  status to the connections left in the queue, the "Match found!" \<^verbatim>\<open>roomInfo\<close> to every
  member whose channel is open, in queue order and the host among them, and last of all
  \<^verbatim>\<open>hostStart\<close> to the host. So \<^verbatim>\<open>hostStart\<close> comes after the \<^verbatim>\<open>roomInfo\<close> of every
  member, the host's own included.
\<close>

theorem hostStart_after_roomInfo:
  fixes st m t n b
  defines "socks \<equiv> take n (queue b)"
  assumes b: "waiting st (keyOf m t) = Some b" and n: "n \<noteq> 0"
      and reg: "\<forall>s\<in>set socks. clients st s \<noteq> None"
  shows "\<exists>st' status info ccs.
       createRoomFromQueue m t n st = Inr st'
     \<and> map (clients st) socks = map Some ccs
     \<and> info = RoomInfo (Some (nextUid st)) (map_option c_id (firstOf ccs)) (map playerOf ccs) MatchFound
     \<and> sent st' = sent st @ status @ map (\<lambda>s. (s, info)) (filter (isOpen st) socks)
                     @ (case firstOf socks of
                          None \<Rightarrow> []
                        | Some h \<Rightarrow> if isOpen st h then [(h, HostStart)] else [])
     \<and> (\<forall>x\<in>set status. fst x \<in> set (drop n (queue b)) \<and> (\<exists>k nd. snd x = RoomInfo None None [] (Searching k nd)))
     \<and> (\<forall>h. firstOf socks = Some h \<and> isOpen st h \<longrightarrow> (h, info) \<in> set (map (\<lambda>s. (s, info)) (filter (isOpen st) socks)))"
proof -
  let ?ccs = "map (\<lambda>s. the (clients st s)) socks"
  let ?status = "(if drop n (queue b) = [] then []
            else map (\<lambda>s. (s, RoomInfo None None [] (Searching (length (drop n (queue b))) (needOf m))))
                   (filter (isOpen st) (drop n (queue b))))"
  let ?info = "RoomInfo (Some (nextUid st)) (map_option c_id (firstOf ?ccs)) (map playerOf ?ccs) MatchFound"
  have reg': "\<forall>s\<in>set (take n (queue b)). clients st s \<noteq> None" using reg by (simp add: socks_def)
  from createRoom_ok[OF b n reg'] obtain st' where
    st': "createRoomFromQueue m t n st = Inr st'"
    and snt: "sent st' = sent st @ ?status @ map (\<lambda>s. (s, ?info)) (filter (isOpen st) socks)
                     @ (case firstOf socks of
                          None \<Rightarrow> []
                        | Some h \<Rightarrow> if isOpen st h then [(h, HostStart)] else [])"
    by (auto simp: socks_def comp_def)
  have m: "map (clients st) socks = map Some ?ccs" using map_the_clients[OF reg] .
  have stat: "\<forall>x\<in>set ?status. fst x \<in> set (drop n (queue b)) \<and> (\<exists>k nd. snd x = RoomInfo None None [] (Searching k nd))"
    by auto
  have host: "\<forall>h. firstOf socks = Some h \<and> isOpen st h \<longrightarrow> (h, ?info) \<in> set (map (\<lambda>s. (s, ?info)) (filter (isOpen st) socks))"
    by (auto simp: firstOf_def split: list.splits)
  show ?thesis using st' snt m stat host by blast
qed



lemma twoQueued_fields:
  "waiting twoQueued ''ONLINEPVP|1'' = Some \<lparr> queue = [0, 1], timer = Some 0, startedAt = 0 \<rparr>"
  "clients twoQueued 0 = Some \<lparr> c_id = 0, c_tier = Some 1, c_tankName = Some ''Tank'', c_mode = Some ''ONLINEPVP'', c_roomId = None, c_username = [] \<rparr>"
  "clients twoQueued (Suc 0) = Some \<lparr> c_id = 1, c_tier = Some 1, c_tankName = Some ''Tank'', c_mode = Some ''ONLINEPVP'', c_roomId = None, c_username = [] \<rparr>"
  "nextUid twoQueued = 2"
  "isOpen twoQueued 0" "isOpen twoQueued (Suc 0)"
  "timeouts twoQueued 0 = Some (''ONLINEPVP'', 1, 6500)"
  by (simp_all add: twoQueued_def run_defs)

theorem hostStart_after_roomInfo_witness:
  "\<exists>st' info. createRoomFromQueue ''ONLINEPVP'' 1 2 twoQueued = Inr st'
      \<and> sent st' = sent twoQueued @ [(0, info), (1, info), (0, HostStart)]"
proof -
  have k: "keyOf ''ONLINEPVP'' 1 = ''ONLINEPVP|1''" by (simp add: run_defs)
  from hostStart_after_roomInfo[where st = twoQueued and m = "''ONLINEPVP''" and t = 1 and n = 2
      and b = "\<lparr> queue = [0, 1], timer = Some 0, startedAt = 0 \<rparr>"]
  obtain st' status info where
    "createRoomFromQueue ''ONLINEPVP'' 1 2 twoQueued = Inr st'"
    "sent st' = sent twoQueued @ status @ [(0, info), (1, info), (0, HostStart)]"
    "\<forall>x\<in>set status. fst x \<in> {}"
    by (auto simp: k twoQueued_fields firstOf_def)
  moreover from this have "status = []" by (cases status) auto
  ultimately show ?thesis by auto
qed

section \<open>Free-for-all: the immediate start and the window\<close>

lemma firstOf_take: "xs \<noteq> [] \<Longrightarrow> n \<noteq> 0 \<Longrightarrow> firstOf (take n xs) = Some (hd xs)"
  by (cases xs; cases n) (simp_all add: firstOf_def)

lemma ffa_immediate:
  fixes st w c fm ft fn fu now
  defines "t \<equiv> tierOr ft"
  defines "bq \<equiv> enqueue w (waiting st (keyOf ''ONLINEPVP'' t))"
  assumes c: "clients st w = Some c"
      and m: "strOr fm ''ONLINEPVP'' = ''ONLINEPVP''"
      and len: "6 \<le> length (queue bq)"
      and reg: "\<forall>s\<in>set (take 6 (queue bq)). s \<noteq> w \<longrightarrow> clients st s \<noteq> None"
  shows "\<exists>st' r. onMessage now w (Json (Join fm ft fn fu)) st = Inr st'
     \<and> rooms st' (nextUid st) = Some r
     \<and> sockets r = take 6 (queue bq)
     \<and> hostWs r = Some (hd (queue bq))
     \<and> waiting st' (keyOf ''ONLINEPVP'' t) =
         (if drop 6 (queue bq) = [] then None else Some (bq\<lparr>queue := drop 6 (queue bq)\<rparr>))
     \<and> timeouts st' =
         (if drop 6 (queue bq) = []
          then (case timer bq of None \<Rightarrow> timeouts st | Some x \<Rightarrow> (timeouts st)(x := None))
          else timeouts st)"
proof -
  let ?st3 = "enroll w c fm ft fn fu st"
  have w3: "waiting ?st3 (keyOf ''ONLINEPVP'' t) = Some bq"
    by (simp add: waiting_enroll m t_def bq_def)
  have reg3: "\<forall>s\<in>set (take 6 (queue bq)). clients ?st3 s \<noteq> None"
    using reg by (auto simp: clients_enroll)
  have ne: "queue bq \<noteq> []" using len by auto
  have ms: "maybeStart now ''ONLINEPVP'' t ?st3 = createRoomFromQueue ''ONLINEPVP'' t 6 ?st3"
    using w3 len by (simp add: maybeStart_def Let_def needExact_def maxPlayers_def)
  have six: "(6::nat) \<noteq> 0" by simp
  from createRoom_ok[OF w3 six reg3] obtain st' where
    st': "createRoomFromQueue ''ONLINEPVP'' t 6 ?st3 = Inr st'"
    and r: "rooms st' = (rooms ?st3)(nextUid ?st3 \<mapsto>
           \<lparr> hostWs = firstOf (take 6 (queue bq)), sockets = take 6 (queue bq),
             players = map (\<lambda>s. playerOf (the (clients ?st3 s))) (take 6 (queue bq)),
             r_mode = ''ONLINEPVP'', r_tier = t \<rparr>)"
    and wt: "waiting st' = (if drop 6 (queue bq) = [] then (waiting ?st3)(keyOf ''ONLINEPVP'' t := None)
                      else (waiting ?st3)(keyOf ''ONLINEPVP'' t \<mapsto> bq\<lparr>queue := drop 6 (queue bq)\<rparr>))"
    and tm: "timeouts st' = (if drop 6 (queue bq) = [] then timeouts (clearTimer (timer bq) ?st3)
                             else timeouts ?st3)"
    by blast
  show ?thesis
    using st' ms r wt tm c m firstOf_take[OF ne six]
    by (simp add: onMessage_join t_def timeouts_clearTimer split: option.splits)
qed

lemma ffa_window:
  fixes st w c fm ft fn fu now
  defines "t \<equiv> tierOr ft"
  defines "bq \<equiv> enqueue w (waiting st (keyOf ''ONLINEPVP'' t))"
  assumes c: "clients st w = Some c"
      and m: "strOr fm ''ONLINEPVP'' = ''ONLINEPVP''"
      and len: "2 \<le> length (queue bq)" "length (queue bq) < 6"
  shows "\<exists>st'. onMessage now w (Json (Join fm ft fn fu)) st = Inr st'
     \<and> rooms st' = rooms st
     \<and> (timer bq = None \<longrightarrow>
          timeouts st' = (timeouts st)(nextTimeout st \<mapsto> (''ONLINEPVP'', t, 6500))
        \<and> waiting st' (keyOf ''ONLINEPVP'' t) = Some (bq\<lparr>timer := Some (nextTimeout st), startedAt := now\<rparr>))
     \<and> (timer bq \<noteq> None \<longrightarrow>
          timeouts st' = timeouts st \<and> waiting st' (keyOf ''ONLINEPVP'' t) = Some bq)"
proof -
  let ?st3 = "enroll w c fm ft fn fu st"
  have w3: "waiting ?st3 (keyOf ''ONLINEPVP'' t) = Some bq"
    by (simp add: waiting_enroll m t_def bq_def)
  show ?thesis
    using w3 len c m
    by (auto simp add: onMessage_join t_def maybeStart_def Let_def needExact_def maxPlayers_def
          needMin_def setTimeout_def)
qed

lemma ffa_fire:
  fixes st h t d b
  defines "n \<equiv> min 6 (length (queue b))"
  assumes h: "timeouts st h = Some (''ONLINEPVP'', t, d)"
      and b: "waiting st (keyOf ''ONLINEPVP'' t) = Some b"
  shows "(2 \<le> n \<and> (\<forall>s\<in>set (take n (queue b)). clients st s \<noteq> None) \<longrightarrow>
            (\<exists>st' r. onTimeout h st = Inr st'
               \<and> rooms st' (nextUid st) = Some r
               \<and> sockets r = take n (queue b)
               \<and> hostWs r = Some (hd (queue b))
               \<and> timeouts st' = (timeouts st)(h := None)
               \<and> waiting st' (keyOf ''ONLINEPVP'' t) =
                   (if drop n (queue b) = [] then None
                    else Some (b\<lparr>queue := drop n (queue b), timer := None\<rparr>))))
       \<and> (n < 2 \<longrightarrow>
            (\<exists>st'. onTimeout h st = Inr st'
               \<and> rooms st' = rooms st \<and> clients st' = clients st \<and> sent st' = sent st
               \<and> isOpen st' = isOpen st
               \<and> timeouts st' = (timeouts st)(h := None)
               \<and> waiting st' = (waiting st)(keyOf ''ONLINEPVP'' t \<mapsto> b\<lparr>timer := None\<rparr>)))"
proof (intro conjI impI)
  assume A: "2 \<le> n \<and> (\<forall>s\<in>set (take n (queue b)). clients st s \<noteq> None)"
  let ?k = "keyOf ''ONLINEPVP'' t"
  let ?b = "b\<lparr>timer := None\<rparr>"
  let ?st1 = "st\<lparr>timeouts := (timeouts st)(h := None), waiting := (waiting st)(?k \<mapsto> ?b)\<rparr>"
  have w1: "waiting ?st1 ?k = Some ?b" by simp
  have n0: "n \<noteq> 0" using A by auto
  have ne: "queue b \<noteq> []" using A by (auto simp: n_def)
  have reg1: "\<forall>s\<in>set (take n (queue ?b)). clients ?st1 s \<noteq> None" using A by simp
  have eq: "onTimeout h st = createRoomFromQueue ''ONLINEPVP'' t n ?st1"
    using h b A by (simp add: onTimeout_def timerCallback_def Let_def maxPlayers_def needMin_def n_def)
  from createRoom_ok[OF w1 n0 reg1] obtain st' where
    st': "createRoomFromQueue ''ONLINEPVP'' t n ?st1 = Inr st'"
    and r: "rooms st' = (rooms ?st1)(nextUid ?st1 \<mapsto>
           \<lparr> hostWs = firstOf (take n (queue ?b)), sockets = take n (queue ?b),
             players = map (\<lambda>s. playerOf (the (clients ?st1 s))) (take n (queue ?b)),
             r_mode = ''ONLINEPVP'', r_tier = t \<rparr>)"
    and wt: "waiting st' = (if drop n (queue ?b) = [] then (waiting ?st1)(?k := None)
                      else (waiting ?st1)(?k \<mapsto> ?b\<lparr>queue := drop n (queue ?b)\<rparr>))"
    and tm: "timeouts st' = (if drop n (queue ?b) = [] then timeouts (clearTimer (timer ?b) ?st1) else timeouts ?st1)"
    by blast
  show "\<exists>st' r. onTimeout h st = Inr st'
               \<and> rooms st' (nextUid st) = Some r
               \<and> sockets r = take n (queue b)
               \<and> hostWs r = Some (hd (queue b))
               \<and> timeouts st' = (timeouts st)(h := None)
               \<and> waiting st' (keyOf ''ONLINEPVP'' t) =
                   (if drop n (queue b) = [] then None
                    else Some (b\<lparr>queue := drop n (queue b), timer := None\<rparr>))"
    using st' r wt tm eq firstOf_take[OF ne n0] by (simp add: timeouts_clearTimer)
next
  assume "n < 2"
  then have "length (queue b) < 2" "min 6 (length (queue b)) = length (queue b)"
    by (simp_all add: n_def)
  then show "\<exists>st'. onTimeout h st = Inr st'
               \<and> rooms st' = rooms st \<and> clients st' = clients st \<and> sent st' = sent st
               \<and> isOpen st' = isOpen st
               \<and> timeouts st' = (timeouts st)(h := None)
               \<and> waiting st' = (waiting st)(keyOf ''ONLINEPVP'' t \<mapsto> b\<lparr>timer := None\<rparr>)"
    using h b by (simp add: onTimeout_def timerCallback_def Let_def maxPlayers_def needMin_def n_def)
qed


text \<open>
  Claim C2, for the bucket of ONLINEPVP and a tier, in three parts.
  First: a join after which the queue holds six or more, the first six of them registered,
  creates at once a room of exactly the first six, the head of the queue its host; these
  six are taken out of the queue, and the bucket keeps the rest, or is deleted and its
  timer cancelled when nothing is left.
  Second: a join after which the queue holds between two and five, while the bucket has no
  timer, arms one timer of 6500 milliseconds for this mode and tier and records its handle
  and the time in the bucket; no room is created.
  Third: when the timer of a bucket that still exists fires, \<open>min 6\<close> of the queue length
  connections are taken from the head: if that is at least two (and they are registered) a
  room of exactly these is created, they leave the queue (the bucket keeps the rest with
  its timer handle reset, or is deleted when nothing is left) and the fired timer is no
  longer pending; if it is less than two nothing is sent, no room is created, and the
  bucket remains with its queue, its timer handle reset.
\<close>

theorem free_for_all_start:
  "(\<forall>st w c fm ft fn fu now.
      clients st w = Some c \<and> strOr fm ''ONLINEPVP'' = ''ONLINEPVP''
      \<and> 6 \<le> length (queue (enqueue w (waiting st (keyOf ''ONLINEPVP'' (tierOr ft)))))
      \<and> (\<forall>s\<in>set (take 6 (queue (enqueue w (waiting st (keyOf ''ONLINEPVP'' (tierOr ft)))))).
             s \<noteq> w \<longrightarrow> clients st s \<noteq> None)
      \<longrightarrow> (\<exists>st' r. onMessage now w (Json (Join fm ft fn fu)) st = Inr st'
             \<and> rooms st' (nextUid st) = Some r
             \<and> sockets r = take 6 (queue (enqueue w (waiting st (keyOf ''ONLINEPVP'' (tierOr ft)))))
             \<and> hostWs r = Some (hd (queue (enqueue w (waiting st (keyOf ''ONLINEPVP'' (tierOr ft))))))
             \<and> waiting st' (keyOf ''ONLINEPVP'' (tierOr ft)) =
                 (if drop 6 (queue (enqueue w (waiting st (keyOf ''ONLINEPVP'' (tierOr ft))))) = []
                  then None
                  else Some ((enqueue w (waiting st (keyOf ''ONLINEPVP'' (tierOr ft))))
                          \<lparr>queue := drop 6 (queue (enqueue w (waiting st (keyOf ''ONLINEPVP'' (tierOr ft)))))\<rparr>))
             \<and> timeouts st' =
                 (if drop 6 (queue (enqueue w (waiting st (keyOf ''ONLINEPVP'' (tierOr ft))))) = []
                  then (case timer (enqueue w (waiting st (keyOf ''ONLINEPVP'' (tierOr ft)))) of
                          None \<Rightarrow> timeouts st
                        | Some x \<Rightarrow> (timeouts st)(x := None))
                  else timeouts st)))
   \<and> (\<forall>st w c fm ft fn fu now.
        clients st w = Some c \<and> strOr fm ''ONLINEPVP'' = ''ONLINEPVP''
        \<and> 2 \<le> length (queue (enqueue w (waiting st (keyOf ''ONLINEPVP'' (tierOr ft)))))
        \<and> length (queue (enqueue w (waiting st (keyOf ''ONLINEPVP'' (tierOr ft))))) < 6
        \<and> timer (enqueue w (waiting st (keyOf ''ONLINEPVP'' (tierOr ft)))) = None
        \<longrightarrow> (\<exists>st'. onMessage now w (Json (Join fm ft fn fu)) st = Inr st'
               \<and> rooms st' = rooms st
               \<and> timeouts st' = (timeouts st)(nextTimeout st \<mapsto> (''ONLINEPVP'', tierOr ft, 6500))
               \<and> waiting st' (keyOf ''ONLINEPVP'' (tierOr ft)) =
                   Some ((enqueue w (waiting st (keyOf ''ONLINEPVP'' (tierOr ft))))
                           \<lparr>timer := Some (nextTimeout st), startedAt := now\<rparr>)))
   \<and> (\<forall>st h t d b.
        timeouts st h = Some (''ONLINEPVP'', t, d) \<and> waiting st (keyOf ''ONLINEPVP'' t) = Some b
        \<longrightarrow> (2 \<le> min 6 (length (queue b))
               \<and> (\<forall>s\<in>set (take (min 6 (length (queue b))) (queue b)). clients st s \<noteq> None) \<longrightarrow>
              (\<exists>st' r. onTimeout h st = Inr st'
                 \<and> rooms st' (nextUid st) = Some r
                 \<and> sockets r = take (min 6 (length (queue b))) (queue b)
                 \<and> hostWs r = Some (hd (queue b))
                 \<and> timeouts st' = (timeouts st)(h := None)
                 \<and> waiting st' (keyOf ''ONLINEPVP'' t) =
                     (if drop (min 6 (length (queue b))) (queue b) = [] then None
                      else Some (b\<lparr>queue := drop (min 6 (length (queue b))) (queue b),
                                   timer := None\<rparr>))))
          \<and> (min 6 (length (queue b)) < 2 \<longrightarrow>
              (\<exists>st'. onTimeout h st = Inr st'
                 \<and> rooms st' = rooms st \<and> clients st' = clients st \<and> sent st' = sent st
                 \<and> isOpen st' = isOpen st
                 \<and> timeouts st' = (timeouts st)(h := None)
                 \<and> waiting st' = (waiting st)(keyOf ''ONLINEPVP'' t \<mapsto> b\<lparr>timer := None\<rparr>))))"
proof (intro conjI allI impI; (elim conjE)?)
  fix st :: state and w c fm ft fn fu now
  assume "clients st w = Some c" "strOr fm ''ONLINEPVP'' = ''ONLINEPVP''"
    "6 \<le> length (queue (enqueue w (waiting st (keyOf ''ONLINEPVP'' (tierOr ft)))))"
    "\<forall>s\<in>set (take 6 (queue (enqueue w (waiting st (keyOf ''ONLINEPVP'' (tierOr ft)))))).
             s \<noteq> w \<longrightarrow> clients st s \<noteq> None"
  from ffa_immediate[OF this, of now fn fu]
  show "\<exists>st' r. onMessage now w (Json (Join fm ft fn fu)) st = Inr st'
             \<and> rooms st' (nextUid st) = Some r
             \<and> sockets r = take 6 (queue (enqueue w (waiting st (keyOf ''ONLINEPVP'' (tierOr ft)))))
             \<and> hostWs r = Some (hd (queue (enqueue w (waiting st (keyOf ''ONLINEPVP'' (tierOr ft))))))
             \<and> waiting st' (keyOf ''ONLINEPVP'' (tierOr ft)) =
                 (if drop 6 (queue (enqueue w (waiting st (keyOf ''ONLINEPVP'' (tierOr ft))))) = []
                  then None
                  else Some ((enqueue w (waiting st (keyOf ''ONLINEPVP'' (tierOr ft))))
                          \<lparr>queue := drop 6 (queue (enqueue w (waiting st (keyOf ''ONLINEPVP'' (tierOr ft)))))\<rparr>))
             \<and> timeouts st' =
                 (if drop 6 (queue (enqueue w (waiting st (keyOf ''ONLINEPVP'' (tierOr ft))))) = []
                  then (case timer (enqueue w (waiting st (keyOf ''ONLINEPVP'' (tierOr ft)))) of
                          None \<Rightarrow> timeouts st
                        | Some x \<Rightarrow> (timeouts st)(x := None))
                  else timeouts st)"
    by blast
next
  fix st :: state and w c fm ft fn fu now
  assume a: "clients st w = Some c" "strOr fm ''ONLINEPVP'' = ''ONLINEPVP''"
    "2 \<le> length (queue (enqueue w (waiting st (keyOf ''ONLINEPVP'' (tierOr ft)))))"
    "length (queue (enqueue w (waiting st (keyOf ''ONLINEPVP'' (tierOr ft))))) < 6"
    and tm: "timer (enqueue w (waiting st (keyOf ''ONLINEPVP'' (tierOr ft)))) = None"
  from ffa_window[OF a, of now fn fu] tm
  show "\<exists>st'. onMessage now w (Json (Join fm ft fn fu)) st = Inr st'
               \<and> rooms st' = rooms st
               \<and> timeouts st' = (timeouts st)(nextTimeout st \<mapsto> (''ONLINEPVP'', tierOr ft, 6500))
               \<and> waiting st' (keyOf ''ONLINEPVP'' (tierOr ft)) =
                   Some ((enqueue w (waiting st (keyOf ''ONLINEPVP'' (tierOr ft))))
                           \<lparr>timer := Some (nextTimeout st), startedAt := now\<rparr>)"
    by auto
next
  fix st :: state and h t d b
  assume a: "timeouts st h = Some (''ONLINEPVP'', t, d)" "waiting st (keyOf ''ONLINEPVP'' t) = Some b"
    and n: "2 \<le> min 6 (length (queue b))"
      "\<forall>s\<in>set (take (min 6 (length (queue b))) (queue b)). clients st s \<noteq> None"
  from ffa_fire[OF a] n
  show "\<exists>st' r. onTimeout h st = Inr st'
                 \<and> rooms st' (nextUid st) = Some r
                 \<and> sockets r = take (min 6 (length (queue b))) (queue b)
                 \<and> hostWs r = Some (hd (queue b))
                 \<and> timeouts st' = (timeouts st)(h := None)
                 \<and> waiting st' (keyOf ''ONLINEPVP'' t) =
                     (if drop (min 6 (length (queue b))) (queue b) = [] then None
                      else Some (b\<lparr>queue := drop (min 6 (length (queue b))) (queue b),
                                   timer := None\<rparr>))"
    by blast
next
  fix st :: state and h t d b
  assume a: "timeouts st h = Some (''ONLINEPVP'', t, d)" "waiting st (keyOf ''ONLINEPVP'' t) = Some b"
    and n: "min 6 (length (queue b)) < 2"
  from ffa_fire[OF a] n
  show "\<exists>st'. onTimeout h st = Inr st'
                 \<and> rooms st' = rooms st \<and> clients st' = clients st \<and> sent st' = sent st
                 \<and> isOpen st' = isOpen st
                 \<and> timeouts st' = (timeouts st)(h := None)
                 \<and> waiting st' = (waiting st)(keyOf ''ONLINEPVP'' t \<mapsto> b\<lparr>timer := None\<rparr>)"
    by blast
qed



lemma fiveQueued_fields:
  "waiting fiveQueued ''ONLINEPVP|1'' = Some \<lparr> queue = [0, 1, 2, 3, 4], timer = Some 0, startedAt = 0 \<rparr>"
  "clients fiveQueued 5 = Some \<lparr> c_id = 5, c_tier = None, c_tankName = None, c_mode = None, c_roomId = None, c_username = [] \<rparr>"
  "\<exists>y. clients fiveQueued 0 = Some y" "\<exists>y. clients fiveQueued (Suc 0) = Some y"
  "\<exists>y. clients fiveQueued 2 = Some y" "\<exists>y. clients fiveQueued 3 = Some y"
  "\<exists>y. clients fiveQueued 4 = Some y"
  "nextUid fiveQueued = 6"
  by (simp_all add: fiveQueued_def run_defs)

lemma oneLeft_fields:
  "waiting oneLeft ''ONLINEPVP|1'' = Some \<lparr> queue = [0], timer = Some 0, startedAt = 0 \<rparr>"
  "timeouts oneLeft 0 = Some (''ONLINEPVP'', 1, 6500)"
  by (simp_all add: oneLeft_def run_defs)

lemma onePvp_fields:
  "waiting onePvp ''ONLINEPVP|1'' = Some \<lparr> queue = [0], timer = None, startedAt = 0 \<rparr>"
  "clients onePvp (Suc 0) = Some \<lparr> c_id = 1, c_tier = None, c_tankName = None, c_mode = None, c_roomId = None, c_username = [] \<rparr>"
  "nextTimeout onePvp = 0"
  by (simp_all add: onePvp_def run_defs)

lemma key_pvp1: "keyOf ''ONLINEPVP'' 1 = ''ONLINEPVP|1''"
  by (simp add: keyOf_def showInt_def showNat.simps digitChar_def)

theorem free_for_all_start_witness:
  "(\<exists>st' r. onMessage 0 5 (Json (Join None None None None)) fiveQueued = Inr st'
       \<and> rooms st' 6 = Some r \<and> sockets r = [0, 1, 2, 3, 4, 5] \<and> hostWs r = Some 0
       \<and> waiting st' ''ONLINEPVP|1'' = None \<and> timeouts st' 0 = None)
   \<and> (\<exists>st'. onMessage 7 1 (Json (Join (Some ''ONLINEPVP'') (Some 1) None None)) onePvp = Inr st'
       \<and> timeouts st' 0 = Some (''ONLINEPVP'', 1, 6500)
       \<and> waiting st' ''ONLINEPVP|1'' = Some \<lparr> queue = [0, 1], timer = Some 0, startedAt = 7 \<rparr>)
   \<and> (\<exists>st' r. onTimeout 0 twoQueued = Inr st' \<and> rooms st' 2 = Some r \<and> sockets r = [0, 1]
       \<and> hostWs r = Some 0 \<and> waiting st' ''ONLINEPVP|1'' = None \<and> timeouts st' 0 = None)
   \<and> (\<exists>st'. onTimeout 0 oneLeft = Inr st' \<and> rooms st' = rooms oneLeft \<and> sent st' = sent oneLeft
       \<and> waiting st' ''ONLINEPVP|1'' = Some \<lparr> queue = [0], timer = None, startedAt = 0 \<rparr>)"
proof (intro conjI)
  show "\<exists>st' r. onMessage 0 5 (Json (Join None None None None)) fiveQueued = Inr st'
       \<and> rooms st' 6 = Some r \<and> sockets r = [0, 1, 2, 3, 4, 5] \<and> hostWs r = Some 0
       \<and> waiting st' ''ONLINEPVP|1'' = None \<and> timeouts st' 0 = None"
    using free_for_all_start[THEN conjunct1, rule_format, of fiveQueued 5 _ None None 0 None None]
    by (auto simp add: fiveQueued_fields strOr_def tierOr_def key_pvp1 enqueue_def)
  show "\<exists>st'. onMessage 7 1 (Json (Join (Some ''ONLINEPVP'') (Some 1) None None)) onePvp = Inr st'
       \<and> timeouts st' 0 = Some (''ONLINEPVP'', 1, 6500)
       \<and> waiting st' ''ONLINEPVP|1'' = Some \<lparr> queue = [0, 1], timer = Some 0, startedAt = 7 \<rparr>"
    using free_for_all_start[THEN conjunct2, THEN conjunct1, rule_format,
        of onePvp 1 _ "Some ''ONLINEPVP''" "Some 1" 7 None None]
    by (auto simp add: onePvp_fields strOr_def tierOr_def key_pvp1 enqueue_def)
  show "\<exists>st' r. onTimeout 0 twoQueued = Inr st' \<and> rooms st' 2 = Some r \<and> sockets r = [0, 1]
       \<and> hostWs r = Some 0 \<and> waiting st' ''ONLINEPVP|1'' = None \<and> timeouts st' 0 = None"
    using free_for_all_start[THEN conjunct2, THEN conjunct2, rule_format, THEN conjunct1, rule_format,
        of twoQueued 0 1 6500 "\<lparr> queue = [0, 1], timer = Some 0, startedAt = 0 \<rparr>"]
    by (auto simp add: twoQueued_fields key_pvp1)
  show "\<exists>st'. onTimeout 0 oneLeft = Inr st' \<and> rooms st' = rooms oneLeft \<and> sent st' = sent oneLeft
       \<and> waiting st' ''ONLINEPVP|1'' = Some \<lparr> queue = [0], timer = None, startedAt = 0 \<rparr>"
    using free_for_all_start[THEN conjunct2, THEN conjunct2, rule_format, THEN conjunct2, rule_format,
        of oneLeft 0 1 6500 "\<lparr> queue = [0], timer = Some 0, startedAt = 0 \<rparr>"]
    by (auto simp add: oneLeft_fields key_pvp1)
qed

section \<open>Joining the same bucket twice\<close>

lemma join_without_match:
  fixes st w c fm ft fn fu now
  defines "m \<equiv> strOr fm ''ONLINEPVP''" and "t \<equiv> tierOr ft"
  defines "bq \<equiv> enqueue w (waiting st (keyOf m t))"
  assumes c: "clients st w = Some c"
      and nomatch: "maxPlayers m = 0 \<or> length (queue bq) < maxPlayers m"
  shows "\<exists>st' b' c'. onMessage now w (Json (Join fm ft fn fu)) st = Inr st'
     \<and> waiting st' (keyOf m t) = Some b' \<and> queue b' = queue bq
     \<and> clients st' w = Some c' \<and> rooms st' = rooms st"
proof -
  let ?st3 = "enroll w c fm ft fn fu st"
  have w3: "waiting ?st3 (keyOf m t) = Some bq"
    by (simp add: waiting_enroll m_def t_def bq_def)
  have c3: "clients ?st3 w \<noteq> None" by (simp add: clients_enroll)
  have "\<exists>st' b'. maybeStart now m t ?st3 = Inr st' \<and> waiting st' (keyOf m t) = Some b'
          \<and> queue b' = queue bq \<and> clients st' = clients ?st3 \<and> rooms st' = rooms ?st3"
    using w3 nomatch
    by (auto simp add: maybeStart_def Let_def needExact_def maxPlayers_def needMin_def
          createRoomFromQueue_def setTimeout_def split: if_splits)
  then show ?thesis using c c3 by (auto simp add: onMessage_join m_def t_def)
qed

lemma queue_enqueue_mem: "bo = Some b \<Longrightarrow> w \<in> set (queue b) \<Longrightarrow> enqueue w bo = b"
  by (simp add: enqueue_def)

lemma count_list_snoc_new: "w \<notin> set q \<Longrightarrow> count_list (q @ [w]) w = 1"
  by (induction q) auto

text \<open>
  Claim C8. A registered connection \<open>w\<close> that is not yet in the queue \<open>q\<close> of the bucket of
  a mode and tier sends two \<^verbatim>\<open>join\<close> messages for that mode and tier (the names may differ),
  and no match forms: the queue with \<open>w\<close> added stays below the size at which the mode
  starts a room. Then both handlers return, and after the first and after the second the
  queue is \<open>q\<close> followed by \<open>w\<close>: the connection is in it exactly once, at the position
  the first join gave it.
\<close>

theorem join_twice_queued_once:
  fixes st w c fm ft fn fu now fn' fu' now'
  defines "m \<equiv> strOr fm ''ONLINEPVP''" and "t \<equiv> tierOr ft"
  defines "q \<equiv> (case waiting st (keyOf m t) of None \<Rightarrow> [] | Some b \<Rightarrow> queue b)"
  assumes c: "clients st w = Some c"
      and new: "w \<notin> set q"
      and nomatch: "maxPlayers m = 0 \<or> length q + 1 < maxPlayers m"
  shows "\<exists>st1 st2 b1 b2.
       onMessage now w (Json (Join fm ft fn fu)) st = Inr st1
     \<and> onMessage now' w (Json (Join fm ft fn' fu')) st1 = Inr st2
     \<and> waiting st1 (keyOf m t) = Some b1 \<and> queue b1 = q @ [w]
     \<and> waiting st2 (keyOf m t) = Some b2 \<and> queue b2 = q @ [w]
     \<and> count_list (queue b2) w = 1"
proof -
  have e: "queue (enqueue w (waiting st (keyOf m t))) = q @ [w]"
    using new by (auto simp: enqueue_def q_def split: option.splits)
  have nm1: "maxPlayers (strOr fm ''ONLINEPVP'') = 0
      \<or> length (queue (enqueue w (waiting st (keyOf (strOr fm ''ONLINEPVP'') (tierOr ft)))))
           < maxPlayers (strOr fm ''ONLINEPVP'')"
    using nomatch e by (simp add: m_def t_def)
  from join_without_match[OF c nm1, of now fn fu] obtain st1 b1 c1 where
    s1: "onMessage now w (Json (Join fm ft fn fu)) st = Inr st1"
    and w1: "waiting st1 (keyOf m t) = Some b1" and q1: "queue b1 = q @ [w]"
    and c1: "clients st1 w = Some c1"
    using e by (auto simp: m_def t_def)
  have e2: "enqueue w (waiting st1 (keyOf m t)) = b1"
    using w1 q1 by (simp add: queue_enqueue_mem)
  have nm2: "maxPlayers (strOr fm ''ONLINEPVP'') = 0
      \<or> length (queue (enqueue w (waiting st1 (keyOf (strOr fm ''ONLINEPVP'') (tierOr ft)))))
           < maxPlayers (strOr fm ''ONLINEPVP'')"
    using nomatch e2 q1 by (simp add: m_def t_def)
  from join_without_match[OF c1 nm2, of now' fn' fu'] obtain st2 b2 where
    s2: "onMessage now' w (Json (Join fm ft fn' fu')) st1 = Inr st2"
    and w2: "waiting st2 (keyOf m t) = Some b2" and q2: "queue b2 = q @ [w]"
    using e2 q1 by (auto simp: m_def t_def)
  show ?thesis
    using s1 s2 w1 q1 w2 q2 count_list_snoc_new[OF new] by auto
qed

theorem join_twice_queued_once_witness:
  "\<exists>st1 st2 b1 b2.
       onMessage 3 1 (Json (Join (Some ''ONLINEPVP'') (Some 1) None None)) onePvp = Inr st1
     \<and> onMessage 4 1 (Json (Join (Some ''ONLINEPVP'') (Some 1) (Some ''T'') None)) st1 = Inr st2
     \<and> waiting st1 ''ONLINEPVP|1'' = Some b1 \<and> queue b1 = [0, 1]
     \<and> waiting st2 ''ONLINEPVP|1'' = Some b2 \<and> queue b2 = [0, 1]
     \<and> count_list (queue b2) 1 = 1"
  using join_twice_queued_once[where st = onePvp and w = 1 and fm = "Some ''ONLINEPVP''"
      and ft = "Some 1" and now = 3 and now' = 4 and fn = None and fu = None
      and fn' = "Some ''T''" and fu' = None]
  by (simp add: onePvp_fields strOr_def tierOr_def key_pvp1 maxPlayers_def)

section \<open>The mode of a join\<close>

text \<open>
  Claim C7 says that a join whose mode is none of the three is processed as ONLINEPVP. A
  join with the mode \<^verbatim>\<open>ONLINE3V3\<close> runs without error, the session's mode is that string,
  and the connection is queued in the bucket \<^verbatim>\<open>ONLINE3V3|1\<close>, while the bucket
  \<^verbatim>\<open>ONLINEPVP|1\<close> does not exist; a join with mode ONLINEPVP gives the session that mode
  and queues the connection in \<^verbatim>\<open>ONLINEPVP|1\<close>.
\<close>

theorem unknown_mode_not_free_for_all:
  "\<not> crashes [Connection, joinEv 0 ''ONLINE3V3'' 1]
   \<and> map_option c_mode (clients (final [Connection, joinEv 0 ''ONLINE3V3'' 1]) 0) = Some (Some ''ONLINE3V3'')
   \<and> map_option queue (waiting (final [Connection, joinEv 0 ''ONLINE3V3'' 1]) ''ONLINE3V3|1'') = Some [0]
   \<and> waiting (final [Connection, joinEv 0 ''ONLINE3V3'' 1]) ''ONLINEPVP|1'' = None
   \<and> map_option c_mode (clients (final [Connection, joinEv 0 ''ONLINEPVP'' 1]) 0) = Some (Some ''ONLINEPVP'')
   \<and> map_option queue (waiting (final [Connection, joinEv 0 ''ONLINEPVP'' 1]) ''ONLINEPVP|1'') = Some [0]"
  by (simp add: run_defs)

text \<open>
  Claim C7 as amended. A join whose mode field is missing or falsy (the empty string
  included) is processed exactly as a join with the mode ONLINEPVP. A join with any
  non-empty mode string, one of the three or not, makes that string the session's mode,
  queues the connection in the bucket keyed by that string and the tier, and applies
  \<^verbatim>\<open>maybeStart\<close> to that mode and tier.
\<close>

theorem missing_mode_is_free_for_all:
  "(fm = None \<or> fm = Some [] \<longrightarrow>
      onMessage now w (Json (Join fm ft fn fu)) st =
      onMessage now w (Json (Join (Some ''ONLINEPVP'') ft fn fu)) st)
   \<and> (clients st w = Some c \<and> fm = Some s \<and> s \<noteq> [] \<longrightarrow>
        (\<exists>st3 c' b'. onMessage now w (Json (Join fm ft fn fu)) st = maybeStart now s (tierOr ft) st3
           \<and> clients st3 w = Some c' \<and> c_mode c' = Some s
           \<and> waiting st3 (keyOf s (tierOr ft)) = Some b' \<and> w \<in> set (queue b')))"
proof (intro conjI impI)
  assume "fm = None \<or> fm = Some []"
  then have "strOr fm ''ONLINEPVP'' = strOr (Some ''ONLINEPVP'') ''ONLINEPVP''"
    by (auto simp: strOr_def)
  then show "onMessage now w (Json (Join fm ft fn fu)) st =
      onMessage now w (Json (Join (Some ''ONLINEPVP'') ft fn fu)) st"
    by (simp add: onMessage_def onJoin_def enroll_def split: option.splits)
next
  assume a: "clients st w = Some c \<and> fm = Some s \<and> s \<noteq> []"
  then have m: "strOr fm ''ONLINEPVP'' = s" by (simp add: strOr_def)
  let ?st3 = "enroll w c fm ft fn fu st"
  have "onMessage now w (Json (Join fm ft fn fu)) st = maybeStart now s (tierOr ft) ?st3"
    using a m by (simp add: onMessage_join)
  moreover have "\<exists>c'. clients ?st3 w = Some c' \<and> c_mode c' = Some s"
    by (simp add: clients_enroll m)
  moreover have "\<exists>b'. waiting ?st3 (keyOf s (tierOr ft)) = Some b' \<and> w \<in> set (queue b')"
    by (simp add: waiting_enroll m enqueue_def Let_def)
  ultimately show "\<exists>st3 c' b'. onMessage now w (Json (Join fm ft fn fu)) st = maybeStart now s (tierOr ft) st3
           \<and> clients st3 w = Some c' \<and> c_mode c' = Some s
           \<and> waiting st3 (keyOf s (tierOr ft)) = Some b' \<and> w \<in> set (queue b')"
    by blast
qed

theorem missing_mode_is_free_for_all_witness:
  "onMessage 0 1 (Json (Join (Some []) None None None)) onePvp =
     onMessage 0 1 (Json (Join (Some ''ONLINEPVP'') None None None)) onePvp
   \<and> (\<exists>st3 c' b'. onMessage 0 1 (Json (Join (Some ''ONLINE3V3'') None None None)) onePvp =
           maybeStart 0 ''ONLINE3V3'' 1 st3
         \<and> clients st3 1 = Some c' \<and> c_mode c' = Some ''ONLINE3V3''
         \<and> waiting st3 ''ONLINE3V3|1'' = Some b' \<and> 1 \<in> set (queue b'))"
proof
  show "onMessage 0 1 (Json (Join (Some []) None None None)) onePvp =
     onMessage 0 1 (Json (Join (Some ''ONLINEPVP'') None None None)) onePvp"
    using missing_mode_is_free_for_all[THEN conjunct1, of "Some []" 0 1 None None None onePvp]
    by simp
  have k: "keyOf ''ONLINE3V3'' 1 = ''ONLINE3V3|1''"
    by (simp add: keyOf_def showInt_def showNat.simps digitChar_def)
  show "\<exists>st3 c' b'. onMessage 0 1 (Json (Join (Some ''ONLINE3V3'') None None None)) onePvp =
           maybeStart 0 ''ONLINE3V3'' 1 st3
         \<and> clients st3 1 = Some c' \<and> c_mode c' = Some ''ONLINE3V3''
         \<and> waiting st3 ''ONLINE3V3|1'' = Some b' \<and> 1 \<in> set (queue b')"
    using missing_mode_is_free_for_all[THEN conjunct2, of onePvp 1 _ "Some ''ONLINE3V3''" "''ONLINE3V3''" 0 None None None]
    by (simp add: onePvp_fields tierOr_def k)
qed

section \<open>The relay\<close>

lemma send_as_update:
  "send s obj st = st\<lparr>sent := sent st @ (if isOpen st s then [(s, obj)] else [])\<rparr>"
  by (simp add: send_def)

lemma fold_send_others:
  "fold (\<lambda>s acc. if s \<noteq> w then send s obj acc else acc) xs st =
     st\<lparr>sent := sent st @ map (\<lambda>s. (s, obj)) (filter (\<lambda>s. s \<noteq> w \<and> isOpen st s) xs)\<rparr>"
proof (induction xs arbitrary: st)
  case Nil
  show ?case by simp
next
  case (Cons x xs)
  show ?case by (simp add: Cons.IH) (simp add: send_def)
qed

text \<open>
  Claim C3 says that a relayed message is forwarded verbatim. The non-host member of a room
  sends \<^verbatim>\<open>{"type":"input","payload":0}\<close>: the run does not crash, the last message sent is
  an \<^verbatim>\<open>input\<close> to the host with the empty object as payload, and no \<^verbatim>\<open>input\<close> with
  the payload \<open>0\<close> is ever sent to the host.
\<close>

theorem falsy_payload_not_verbatim:
  "\<not> crashes (relayEvents (JNum 0))
   \<and> last (sent (final (relayEvents (JNum 0)))) = (0, InputOut 1 (JObject ''{}''))
   \<and> (0, InputOut 1 (JNum 0)) \<notin> set (sent (final (relayEvents (JNum 0))))"
  by (simp add: relayEvents_def run_defs)

text \<open>
  Claim C3 as amended. A registered connection \<open>w\<close> whose session refers to room \<open>rid\<close>
  sends \<^verbatim>\<open>input\<close>, \<^verbatim>\<open>init\<close> or \<^verbatim>\<open>snapshot\<close> with payload \<open>p\<close>. If the room no longer
  exists the message is dropped: the state does not change. If it exists: an \<^verbatim>\<open>input\<close>
  from a member that is not the host is sent to the host alone, when the host's channel is
  open, with the sender's identifier and with the payload \<open>p\<close> when \<open>p\<close> is truthy and the
  empty object otherwise; an \<^verbatim>\<open>input\<close> from the host is dropped; an \<^verbatim>\<open>init\<close> or
  \<^verbatim>\<open>snapshot\<close> from the host is sent, with the same rule for the payload, to every other
  member whose channel is open, in member order, and to nobody else; from a member that
  is not the host it is dropped. Nothing but the log of sent messages changes.
\<close>

theorem relay_routing:
  assumes c: "clients st w = Some c" and rid: "c_roomId c = Some rid"
  shows "(rooms st rid = None \<longrightarrow>
            onMessage now w (Json (Input p)) st = Inr st
          \<and> onMessage now w (Json (Init p)) st = Inr st
          \<and> onMessage now w (Json (Snapshot p)) st = Inr st)
     \<and> (\<forall>r. rooms st rid = Some r \<longrightarrow>
          (hostWs r = Some w \<longrightarrow>
               onMessage now w (Json (Input p)) st = Inr st
             \<and> onMessage now w (Json (Init p)) st =
                 Inr (st\<lparr>sent := sent st @ map (\<lambda>s. (s, InitOut (orEmpty p)))
                                            (filter (\<lambda>s. s \<noteq> w \<and> isOpen st s) (sockets r))\<rparr>)
             \<and> onMessage now w (Json (Snapshot p)) st =
                 Inr (st\<lparr>sent := sent st @ map (\<lambda>s. (s, SnapshotOut (orEmpty p)))
                                            (filter (\<lambda>s. s \<noteq> w \<and> isOpen st s) (sockets r))\<rparr>))
        \<and> (hostWs r \<noteq> Some w \<longrightarrow>
               onMessage now w (Json (Init p)) st = Inr st
             \<and> onMessage now w (Json (Snapshot p)) st = Inr st
             \<and> (\<forall>h. hostWs r = Some h \<longrightarrow>
                  onMessage now w (Json (Input p)) st =
                    Inr (st\<lparr>sent := sent st @ (if isOpen st h
                                              then [(h, InputOut (c_id c) (orEmpty p))] else [])\<rparr>))))"
  using c rid
  by (auto simp add: onMessage_def onRelay_def fold_send_others send_as_update)


lemma matched_fields:
  "clients matched 0 = Some \<lparr> c_id = 0, c_tier = Some 1, c_tankName = Some ''Tank'',
      c_mode = Some ''ONLINE1V1'', c_roomId = Some 2, c_username = [] \<rparr>"
  "clients matched (Suc 0) = Some \<lparr> c_id = 1, c_tier = Some 1, c_tankName = Some ''Tank'',
      c_mode = Some ''ONLINE1V1'', c_roomId = Some 2, c_username = [] \<rparr>"
  "rooms matched 2 = Some \<lparr> hostWs = Some 0, sockets = [0, 1],
      players = [\<lparr> p_id = 0, p_tankName = Some ''Tank'', p_username = [] \<rparr>,
                 \<lparr> p_id = 1, p_tankName = Some ''Tank'', p_username = [] \<rparr>],
      r_mode = ''ONLINE1V1'', r_tier = 1 \<rparr>"
  "isOpen matched 0" "isOpen matched (Suc 0)"
  "waiting matched ''ONLINE1V1|1'' = None"
  by (simp_all add: matched_def run_defs)

theorem relay_routing_witness:
  "onMessage 0 1 (Json (Input (JStr ''fire''))) matched =
     Inr (matched\<lparr>sent := sent matched @ [(0, InputOut 1 (JStr ''fire''))]\<rparr>)
   \<and> onMessage 0 1 (Json (Snapshot (JStr ''s''))) matched = Inr matched
   \<and> onMessage 0 0 (Json (Input (JStr ''fire''))) matched = Inr matched
   \<and> onMessage 0 0 (Json (Init JNull)) matched =
     Inr (matched\<lparr>sent := sent matched @ [(1, InitOut (JObject ''{}''))]\<rparr>)"
  using relay_routing[of matched 1 _ 2 0 "JStr ''fire''"]
        relay_routing[of matched 1 _ 2 0 "JStr ''s''"]
        relay_routing[of matched 0 _ 2 0 "JStr ''fire''"]
        relay_routing[of matched 0 _ 2 0 JNull]
  by (simp add: matched_fields orEmpty_def emptyObject_def)

section \<open>Disconnecting\<close>

lemma closeSocket_fields [simp]:
  "clients (closeSocket s st) = clients st"
  "waiting (closeSocket s st) = waiting st"
  "rooms (closeSocket s st) = rooms st"
  "sent (closeSocket s st) = sent st"
  "timeouts (closeSocket s st) = timeouts st"
  "nextTimeout (closeSocket s st) = nextTimeout st"
  "nextUid (closeSocket s st) = nextUid st"
  "nextWs (closeSocket s st) = nextWs st"
  "isOpen (closeSocket s st) = (isOpen st)(s := False)"
  by (simp_all add: closeSocket_def)

lemma closeAll_fields [simp]:
  "clients (closeAll w xs st) = clients st"
  "waiting (closeAll w xs st) = waiting st"
  "rooms (closeAll w xs st) = rooms st"
  "timeouts (closeAll w xs st) = timeouts st"
  "nextTimeout (closeAll w xs st) = nextTimeout st"
  "nextUid (closeAll w xs st) = nextUid st"
  "nextWs (closeAll w xs st) = nextWs st"
  by (simp_all add: closeAll_def fold_keeps)

lemma isOpen_closeAll: "isOpen (closeAll w xs st) s = (isOpen st s \<and> s \<notin> set xs)"
  by (induction xs arbitrary: st) (auto simp: closeAll_def)

lemma sent_closeAll:
  "\<exists>new. sent (closeAll w xs st) = sent st @ new
     \<and> set new = {(s, Info PlayerDisconnected) | s. s \<in> set xs \<and> s \<noteq> w \<and> isOpen st s}"
proof (induction xs arbitrary: st)
  case Nil
  show ?case by (simp add: closeAll_def)
next
  case (Cons x xs)
  let ?st1 = "closeSocket x (if x \<noteq> w then send x (Info PlayerDisconnected) st else st)"
  from Cons.IH[of ?st1] obtain new where
    n: "sent (closeAll w xs ?st1) = sent ?st1 @ new"
       "set new = {(s, Info PlayerDisconnected) | s. s \<in> set xs \<and> s \<noteq> w \<and> isOpen ?st1 s}"
    by blast
  have s1: "sent ?st1 = sent st @ (if x \<noteq> w \<and> isOpen st x then [(x, Info PlayerDisconnected)] else [])"
    by (simp add: sent_send)
  have o1: "isOpen ?st1 = (isOpen st)(x := False)" by simp
  have eq: "closeAll w (x # xs) st = closeAll w xs ?st1" by (simp add: closeAll_def)
  let ?new = "(if x \<noteq> w \<and> isOpen st x then [(x, Info PlayerDisconnected)] else []) @ new"
  have "sent (closeAll w (x # xs) st) = sent st @ ?new"
    using n(1) s1 eq by simp
  moreover have "set ?new = {(s, Info PlayerDisconnected) | s. s \<in> set (x # xs) \<and> s \<noteq> w \<and> isOpen st s}"
    using n(2) o1 by auto
  ultimately show ?case by blast
qed


lemma leaveQueue_fields [simp]:
  "clients (leaveQueue w c st) = clients st"
  "rooms (leaveQueue w c st) = rooms st"
  "isOpen (leaveQueue w c st) = isOpen st"
  "sent (leaveQueue w c st) = sent st"
  "nextTimeout (leaveQueue w c st) = nextTimeout st"
  "nextUid (leaveQueue w c st) = nextUid st"
  "nextWs (leaveQueue w c st) = nextWs st"
  by (simp_all add: leaveQueue_def Let_def split: option.splits)

lemma cleanup_unregistered: "clients st w = None \<Longrightarrow> cleanup w st = st"
  by (simp add: cleanup_def)

lemma clients_cleanup: "clients (cleanup w st) = (clients st)(w := None)"
  by (auto simp add: cleanup_def closeRoom_def Let_def split: option.splits)

text \<open>
  What \<^verbatim>\<open>cleanup\<close> does for a registered connection \<open>w\<close> whose session refers to a room
  that exists: that room is removed and no other room changes, the channel of every member
  of it is closed, the notice is sent to exactly the members other than \<open>w\<close> whose channel
  was open and nothing else is sent, the session of \<open>w\<close> is removed, and running
  \<^verbatim>\<open>cleanup\<close> for \<open>w\<close> again changes nothing (for a connection without a session
  \<^verbatim>\<open>cleanup\<close> returns the state as it is). The second lemma is this at the two matched
  connections of \<open>matched\<close>, when the second of them closes.
\<close>

lemma cleanup_dissolves_room:
  assumes c: "clients st w = Some c" and rid: "c_roomId c = Some rid"
      and r: "rooms st rid = Some r"
  shows "rooms (cleanup w st) rid = None
     \<and> (\<forall>i. i \<noteq> rid \<longrightarrow> rooms (cleanup w st) i = rooms st i)
     \<and> (\<forall>s\<in>set (sockets r). \<not> isOpen (cleanup w st) s)
     \<and> (\<exists>new. sent (cleanup w st) = sent st @ new
            \<and> set new = {(s, Info PlayerDisconnected) | s. s \<in> set (sockets r) \<and> s \<noteq> w \<and> isOpen st s})
     \<and> clients (cleanup w st) w = None
     \<and> cleanup w (cleanup w st) = cleanup w st"
proof -
  let ?st1 = "leaveQueue w c st"
  let ?st2 = "closeAll w (sockets r) ?st1"
  have eq: "cleanup w st = ?st2\<lparr>rooms := (rooms ?st2)(rid := None), clients := (clients ?st2)(w := None)\<rparr>"
    using c rid r by (simp add: cleanup_def closeRoom_def Let_def)
  from sent_closeAll[of w "sockets r" ?st1] obtain new where
    n: "sent ?st2 = sent ?st1 @ new"
       "set new = {(s, Info PlayerDisconnected) | s. s \<in> set (sockets r) \<and> s \<noteq> w \<and> isOpen ?st1 s}"
    by blast
  have a: "rooms (cleanup w st) rid = None" by (simp add: eq)
  have b: "\<forall>i. i \<noteq> rid \<longrightarrow> rooms (cleanup w st) i = rooms st i" by (simp add: eq)
  have d: "\<forall>s\<in>set (sockets r). \<not> isOpen (cleanup w st) s" by (simp add: eq isOpen_closeAll)
  have e: "\<exists>new. sent (cleanup w st) = sent st @ new
            \<and> set new = {(s, Info PlayerDisconnected) | s. s \<in> set (sockets r) \<and> s \<noteq> w \<and> isOpen st s}"
    using n by (simp add: eq)
  have f: "clients (cleanup w st) w = None" by (simp add: clients_cleanup)
  have g: "cleanup w (cleanup w st) = cleanup w st" using f by (rule cleanup_unregistered)
  show ?thesis using a b d e f g by blast
qed

lemma cleanup_dissolves_room_matched:
  "rooms (cleanup 1 matched) 2 = None
   \<and> \<not> isOpen (cleanup 1 matched) 0 \<and> \<not> isOpen (cleanup 1 matched) 1
   \<and> (\<exists>new. sent (cleanup 1 matched) = sent matched @ new \<and> set new = {(0, Info PlayerDisconnected)})
   \<and> cleanup 1 (cleanup 1 matched) = cleanup 1 matched"
proof -
  have "{(s, Info PlayerDisconnected) | s. s \<in> set [0, 1] \<and> s \<noteq> 1 \<and> isOpen matched s}
          = {(0::nat, Info PlayerDisconnected)}"
    using matched_fields(4) by auto
  then show ?thesis
    using cleanup_dissolves_room[OF matched_fields(2), of 2]
    by (simp add: matched_fields)
qed

text \<open>
  Claim C4: when the channel of any member of any room closes, every other member of that
  room is sent the notice and closed, and the room is removed. The code does this for the
  one room that the session's \<^verbatim>\<open>roomId\<close> names, and a \<^verbatim>\<open>join\<close> sent while matched lets
  \<^verbatim>\<open>createRoomFromQueue\<close> overwrite that \<^verbatim>\<open>roomId\<close> while the connection stays a member
  of its earlier room. In the run \<open>sharedMember\<close> connection 1 is a member of rooms 3 and
  4 and its session refers to room 4 when it closes. The run does not crash; room 4 is
  removed and its other member, connection 2, is notified and closed; but room 3 is still
  there with members 0 and 1, the channel of connection 0 is still open, connection 0 was
  never sent the notice, and the session of connection 1 is gone.
\<close>

theorem member_closes_room_survives:
  "\<not> crashes sharedMember
   \<and> rooms (final sharedMember) 4 = None
   \<and> (2, Info PlayerDisconnected) \<in> set (sent (final sharedMember))
   \<and> \<not> isOpen (final sharedMember) 2
   \<and> map_option sockets (rooms (final sharedMember) 3) = Some [0, 1]
   \<and> isOpen (final sharedMember) 0
   \<and> (0, Info PlayerDisconnected) \<notin> set (sent (final sharedMember))
   \<and> clients (final sharedMember) 1 = None"
  by (simp add: sharedMember_def run_defs)

section \<open>At most one timer for a bucket\<close>

lemma timersInv_requeue:
  "timersInv wt ts nx \<Longrightarrow> wt k = Some b \<Longrightarrow> timer b' = timer b \<Longrightarrow>
   timersInv (wt(k \<mapsto> b')) ts nx"
  unfolding timersInv_def
  apply (intro conjI allI impI)
    apply (metis)
   apply (metis fun_upd_apply option.inject)
  apply (metis fun_upd_apply option.inject)
  done


lemma timersInv_delete:
  assumes inv: "timersInv wt ts nx" and b: "wt k = Some b"
  shows "timersInv (wt(k := None)) (case timer b of None \<Rightarrow> ts | Some x \<Rightarrow> ts(x := None)) nx"
proof -
  let ?ts = "case timer b of None \<Rightarrow> ts | Some x \<Rightarrow> ts(x := None)"
  have sub: "\<And>h v. ?ts h = Some v \<Longrightarrow> ts h = Some v \<and> timer b \<noteq> Some h"
    by (auto split: option.splits if_splits)
  have keep: "\<And>h v. ts h = Some v \<Longrightarrow> timer b \<noteq> Some h \<Longrightarrow> ?ts h = Some v"
    by (auto split: option.splits)
  have T1: "\<And>h m t d. ts h = Some (m, t, d) \<Longrightarrow>
        h < nx \<and> (\<exists>b. wt (keyOf m t) = Some b \<and> timer b = Some h)"
    using inv unfolding timersInv_def by blast
  have T2: "\<And>k b h. wt k = Some b \<Longrightarrow> timer b = Some h \<Longrightarrow>
        (\<exists>m t d. ts h = Some (m, t, d) \<and> keyOf m t = k)"
    using inv unfolding timersInv_def by blast
  show ?thesis
    unfolding timersInv_def
  proof (rule conjI; intro allI impI)
    fix h m t d
    assume a: "?ts h = Some (m, t, d)"
    from sub[OF a] have th: "ts h = Some (m, t, d)" and nb: "timer b \<noteq> Some h" by auto
    from T1[OF th] obtain b0 where lt: "h < nx" and b0: "wt (keyOf m t) = Some b0" "timer b0 = Some h"
      by blast
    have "keyOf m t \<noteq> k" using b0 b nb by auto
    then show "h < nx \<and> (\<exists>b. (wt(k := None)) (keyOf m t) = Some b \<and> timer b = Some h)"
      using lt b0 by simp
  next
    fix k' b' h
    assume a: "(wt(k := None)) k' = Some b' \<and> timer b' = Some h"
    then have k': "k' \<noteq> k" and w: "wt k' = Some b'" and tb: "timer b' = Some h"
      by (auto split: if_splits)
    from T2[OF w tb] obtain m t d where th: "ts h = Some (m, t, d)" and kk: "keyOf m t = k'" by blast
    have "timer b \<noteq> Some h"
    proof
      assume "timer b = Some h"
      from T2[OF b this] th kk k' show False by auto
    qed
    from keep[OF th this] kk
    show "\<exists>m t d. ?ts h = Some (m, t, d) \<and> keyOf m t = k'" by blast
  qed
qed

lemma timersInv_delete_idle:
  "timersInv wt ts nx \<Longrightarrow> wt k = Some b \<Longrightarrow> timer b = None \<Longrightarrow>
   timersInv (wt(k := None)) ts nx"
  using timersInv_delete[of wt ts nx k b] by simp

lemma timersInv_delete_armed:
  "timersInv wt ts nx \<Longrightarrow> wt k = Some b \<Longrightarrow> timer b = Some x \<Longrightarrow>
   timersInv (wt(k := None)) (ts(x := None)) nx"
  using timersInv_delete[of wt ts nx k b] by simp

lemma timersInv_fresh:
  assumes inv: "timersInv wt ts nx" and k: "wt k = None" and b': "timer b' = None"
  shows "timersInv (wt(k \<mapsto> b')) ts nx"
proof -
  have T1: "\<And>h m t d. ts h = Some (m, t, d) \<Longrightarrow>
        h < nx \<and> (\<exists>b. wt (keyOf m t) = Some b \<and> timer b = Some h)"
    using inv unfolding timersInv_def by blast
  have T2: "\<And>k b h. wt k = Some b \<Longrightarrow> timer b = Some h \<Longrightarrow>
        (\<exists>m t d. ts h = Some (m, t, d) \<and> keyOf m t = k)"
    using inv unfolding timersInv_def by blast
  show ?thesis
    unfolding timersInv_def
  proof (rule conjI; intro allI impI)
    fix h m t d
    assume th: "ts h = Some (m, t, d)"
    from T1[OF th] obtain b0 where lt: "h < nx" and b0: "wt (keyOf m t) = Some b0" "timer b0 = Some h"
      by blast
    have "keyOf m t \<noteq> k" using b0 k by auto
    then show "h < nx \<and> (\<exists>b. (wt(k \<mapsto> b')) (keyOf m t) = Some b \<and> timer b = Some h)"
      using lt b0 by simp
  next
    fix k' b0 h
    assume a: "(wt(k \<mapsto> b')) k' = Some b0 \<and> timer b0 = Some h"
    then have "k' \<noteq> k" using b' by (auto split: if_splits)
    with a have w: "wt k' = Some b0" and tb: "timer b0 = Some h" by auto
    from T2[OF w tb] show "\<exists>m t d. ts h = Some (m, t, d) \<and> keyOf m t = k'" .
  qed
qed

lemma timersInv_arm:
  assumes inv: "timersInv wt ts nx" and b: "wt (keyOf m t) = Some b" and nb: "timer b = None"
      and b': "timer b' = Some nx"
  shows "timersInv (wt(keyOf m t \<mapsto> b')) (ts(nx \<mapsto> (m, t, d))) (Suc nx)"
proof -
  have T1: "\<And>h m t d. ts h = Some (m, t, d) \<Longrightarrow>
        h < nx \<and> (\<exists>b. wt (keyOf m t) = Some b \<and> timer b = Some h)"
    using inv unfolding timersInv_def by blast
  have T2: "\<And>k b h. wt k = Some b \<Longrightarrow> timer b = Some h \<Longrightarrow>
        (\<exists>m t d. ts h = Some (m, t, d) \<and> keyOf m t = k)"
    using inv unfolding timersInv_def by blast
  show ?thesis
    unfolding timersInv_def
  proof (rule conjI; intro allI impI)
    fix h m' t' d'
    assume a: "(ts(nx \<mapsto> (m, t, d))) h = Some (m', t', d')"
    show "h < Suc nx \<and> (\<exists>b. (wt(keyOf m t \<mapsto> b')) (keyOf m' t') = Some b \<and> timer b = Some h)"
    proof (cases "h = nx")
      case True
      then show ?thesis using a b' by auto
    next
      case False
      with a have th: "ts h = Some (m', t', d')" by simp
      from T1[OF th] obtain b0 where lt: "h < nx" and b0: "wt (keyOf m' t') = Some b0" "timer b0 = Some h"
        by blast
      have "keyOf m' t' \<noteq> keyOf m t" using b0 b nb by auto
      then show ?thesis using lt b0 by simp
    qed
  next
    fix k' b0 h
    assume a: "(wt(keyOf m t \<mapsto> b')) k' = Some b0 \<and> timer b0 = Some h"
    show "\<exists>m' t' d'. (ts(nx \<mapsto> (m, t, d))) h = Some (m', t', d') \<and> keyOf m' t' = k'"
    proof (cases "k' = keyOf m t")
      case True
      then show ?thesis using a b' by auto
    next
      case False
      with a have w: "wt k' = Some b0" and tb: "timer b0 = Some h" by auto
      from T2[OF w tb] obtain m' t' d' where th: "ts h = Some (m', t', d')" and kk: "keyOf m' t' = k'"
        by blast
      from T1[OF th] have "h \<noteq> nx" by auto
      then show ?thesis using th kk by auto
    qed
  qed
qed

lemma timersInv_fire:
  assumes inv: "timersInv wt ts nx" and h: "ts h = Some (m, t, d)"
      and b: "wt (keyOf m t) = Some b" and b': "timer b' = None"
  shows "timersInv (wt(keyOf m t \<mapsto> b')) (ts(h := None)) nx"
proof -
  have T1: "\<And>h m t d. ts h = Some (m, t, d) \<Longrightarrow>
        h < nx \<and> (\<exists>b. wt (keyOf m t) = Some b \<and> timer b = Some h)"
    using inv unfolding timersInv_def by blast
  have T2: "\<And>k b h. wt k = Some b \<Longrightarrow> timer b = Some h \<Longrightarrow>
        (\<exists>m t d. ts h = Some (m, t, d) \<and> keyOf m t = k)"
    using inv unfolding timersInv_def by blast
  from T1[OF h] b have tb: "timer b = Some h" by auto
  show ?thesis
    unfolding timersInv_def
  proof (rule conjI; intro allI impI)
    fix h' m' t' d'
    assume a: "(ts(h := None)) h' = Some (m', t', d')"
    then have ne: "h' \<noteq> h" and th: "ts h' = Some (m', t', d')" by (auto split: if_splits)
    from T1[OF th] obtain b0 where lt: "h' < nx" and b0: "wt (keyOf m' t') = Some b0" "timer b0 = Some h'"
      by blast
    have "keyOf m' t' \<noteq> keyOf m t" using b0 b tb ne by auto
    then show "h' < nx \<and> (\<exists>b. (wt(keyOf m t \<mapsto> b')) (keyOf m' t') = Some b \<and> timer b = Some h')"
      using lt b0 by simp
  next
    fix k' b0 h'
    assume a: "(wt(keyOf m t \<mapsto> b')) k' = Some b0 \<and> timer b0 = Some h'"
    then have "k' \<noteq> keyOf m t" using b' by (auto split: if_splits)
    with a have w: "wt k' = Some b0" and tb0: "timer b0 = Some h'" by auto
    from T2[OF w tb0] obtain m' t' d' where th: "ts h' = Some (m', t', d')" and kk: "keyOf m' t' = k'"
      by blast
    have "h' \<noteq> h" using th h kk \<open>k' \<noteq> keyOf m t\<close> by auto
    then show "\<exists>m' t' d'. (ts(h := None)) h' = Some (m', t', d') \<and> keyOf m' t' = k'"
      using th kk by auto
  qed
qed

lemma timersInv_bucket_of_timer:
  "timersInv wt ts nx \<Longrightarrow> ts h = Some (m, t, d) \<Longrightarrow> \<exists>b. wt (keyOf m t) = Some b \<and> timer b = Some h"
  unfolding timersInv_def by blast


lemma closeRoom_fields [simp]:
  "clients (closeRoom w c st) = clients st"
  "waiting (closeRoom w c st) = waiting st"
  "timeouts (closeRoom w c st) = timeouts st"
  "nextTimeout (closeRoom w c st) = nextTimeout st"
  "nextUid (closeRoom w c st) = nextUid st"
  "nextWs (closeRoom w c st) = nextWs st"
  by (simp_all add: closeRoom_def Let_def split: option.splits)

lemma timersOk_leaveQueue: "timersOk st \<Longrightarrow> timersOk (leaveQueue w c st)"
  by (auto simp add: timersOk_def leaveQueue_def Let_def timeouts_clearTimer
        intro: timersInv_requeue timersInv_delete_idle timersInv_delete_armed
        split: option.splits)

lemma timersOk_cleanup: "timersOk st \<Longrightarrow> timersOk (cleanup w st)"
proof (cases "clients st w")
  case None
  then show "timersOk st \<Longrightarrow> timersOk (cleanup w st)" by (simp add: cleanup_def)
next
  case (Some c)
  assume "timersOk st"
  then have "timersOk (leaveQueue w c st)" by (rule timersOk_leaveQueue)
  then show "timersOk (cleanup w st)"
    using Some by (simp add: cleanup_def Let_def timersOk_def)
qed

lemma timer_enqueue:
  "timer (enqueue w bo) = (case bo of None \<Rightarrow> None | Some b \<Rightarrow> timer b)"
  by (simp add: enqueue_def Let_def split: option.splits)

lemma timersOk_enroll: "timersOk st \<Longrightarrow> timersOk (enroll w c fm ft fn fu st)"
  by (cases "waiting st (keyOf (strOr fm ''ONLINEPVP'') (tierOr ft))")
     (auto simp add: timersOk_def waiting_enroll timer_enqueue
        intro: timersInv_requeue timersInv_fresh)

lemma createRoom_Inr_cases:
  assumes "createRoomFromQueue m t n st = Inr st'"
  shows "st' = st \<or> (\<exists>b. waiting st (keyOf m t) = Some b \<and> n \<noteq> 0
                        \<and> (\<forall>s\<in>set (take n (queue b)). clients st s \<noteq> None))"
proof (cases "waiting st (keyOf m t)")
  case None
  then show ?thesis using assms by (simp add: createRoomFromQueue_def)
next
  case (Some b)
  show ?thesis
  proof (cases "n = 0")
    case True
    then show ?thesis using assms Some by (simp add: createRoomFromQueue_def)
  next
    case False
    have "\<forall>s\<in>set (take n (queue b)). clients st s \<noteq> None"
    proof (rule ccontr)
      assume "\<not> (\<forall>s\<in>set (take n (queue b)). clients st s \<noteq> None)"
      then obtain s where "s \<in> set (take n (queue b))" "clients st s = None" by blast
      from createRoom_crash[OF Some False this] assms show False by simp
    qed
    then show ?thesis using Some False by blast
  qed
qed

lemma timersOk_createRoom:
  assumes ok: "timersOk st" and r: "createRoomFromQueue m t n st = Inr st'"
  shows "timersOk st'"
proof -
  from createRoom_Inr_cases[OF r] show ?thesis
  proof
    assume "st' = st" then show ?thesis using ok by simp
  next
    assume "\<exists>b. waiting st (keyOf m t) = Some b \<and> n \<noteq> 0
                        \<and> (\<forall>s\<in>set (take n (queue b)). clients st s \<noteq> None)"
    then obtain b where b: "waiting st (keyOf m t) = Some b" and n: "n \<noteq> 0"
      and reg: "\<forall>s\<in>set (take n (queue b)). clients st s \<noteq> None" by blast
    from createRoom_ok[OF b n reg] r have
      wt: "waiting st' = (if drop n (queue b) = [] then (waiting st)(keyOf m t := None)
                      else (waiting st)(keyOf m t \<mapsto> b\<lparr>queue := drop n (queue b)\<rparr>))"
      and tm: "timeouts st' = (if drop n (queue b) = [] then timeouts (clearTimer (timer b) st) else timeouts st)"
      and nx: "nextTimeout st' = nextTimeout st"
      by auto
    show ?thesis
    proof (cases "drop n (queue b) = []")
      case True
      then show ?thesis
        using wt tm nx ok b timersInv_delete[of "waiting st" "timeouts st" "nextTimeout st" "keyOf m t" b]
        by (simp add: timersOk_def timeouts_clearTimer)
    next
      case False
      then show ?thesis
        using wt tm nx ok b
          timersInv_requeue[of "waiting st" "timeouts st" "nextTimeout st" "keyOf m t" b
            "b\<lparr>queue := drop n (queue b)\<rparr>"]
        by (simp add: timersOk_def)
    qed
  qed
qed

lemma timersOk_maybeStart:
  assumes ok: "timersOk st" and r: "maybeStart now m t st = Inr st'"
  shows "timersOk st'"
proof (cases "waiting st (keyOf m t)")
  case None
  then show ?thesis using ok r by (simp add: maybeStart_def)
next
  case (Some b)
  have arm: "timer b = None \<Longrightarrow>
     timersOk (st\<lparr>timeouts := (timeouts st)(nextTimeout st \<mapsto> (m, t, 6500)),
                  nextTimeout := Suc (nextTimeout st),
                  waiting := (waiting st)(keyOf m t \<mapsto> b\<lparr>timer := Some (nextTimeout st), startedAt := now\<rparr>)\<rparr>)"
    using ok Some
      timersInv_arm[of "waiting st" "timeouts st" "nextTimeout st" m t b
         "b\<lparr>timer := Some (nextTimeout st), startedAt := now\<rparr>" 6500]
    by (simp add: timersOk_def)
  show ?thesis
    using r Some ok arm
    by (auto simp add: maybeStart_def Let_def setTimeout_def
          split: if_splits dest: timersOk_createRoom)
qed

lemma timersOk_onTimeout:
  assumes ok: "timersOk st" and r: "onTimeout h st = Inr st'"
  shows "timersOk st'"
proof (cases "timeouts st h")
  case None
  then show ?thesis using ok r by (simp add: onTimeout_def)
next
  case (Some v)
  obtain m t d where v: "v = (m, t, d)" by (cases v) auto
  from ok Some v obtain b where b: "waiting st (keyOf m t) = Some b"
    using timersInv_bucket_of_timer[of "waiting st" "timeouts st" "nextTimeout st" h m t d]
    by (auto simp: timersOk_def)
  let ?st1 = "st\<lparr>timeouts := (timeouts st)(h := None),
                  waiting := (waiting st)(keyOf m t \<mapsto> b\<lparr>timer := None\<rparr>)\<rparr>"
  have ok1: "timersOk ?st1"
    using ok Some v b
      timersInv_fire[of "waiting st" "timeouts st" "nextTimeout st" h m t d b "b\<lparr>timer := None\<rparr>"]
    by (simp add: timersOk_def)
  have "st' = ?st1 \<or> createRoomFromQueue m t (min (maxPlayers m) (length (queue b))) ?st1 = Inr st'"
    using r Some v b by (auto simp add: onTimeout_def timerCallback_def Let_def split: if_splits)
  then show ?thesis using ok1 timersOk_createRoom by blast
qed

lemma onRelay_fields [simp]:
  "clients (onRelay w c ms st) = clients st"
  "waiting (onRelay w c ms st) = waiting st"
  "rooms (onRelay w c ms st) = rooms st"
  "isOpen (onRelay w c ms st) = isOpen st"
  "timeouts (onRelay w c ms st) = timeouts st"
  "nextTimeout (onRelay w c ms st) = nextTimeout st"
  "nextUid (onRelay w c ms st) = nextUid st"
  "nextWs (onRelay w c ms st) = nextWs st"
  by (simp_all add: onRelay_def fold_send_others split: option.splits msg.splits)

lemma timersOk_onMessage:
  assumes ok: "timersOk st" and r: "onMessage now w fr st = Inr st'"
  shows "timersOk st'"
proof (cases "clients st w")
  case None
  then show ?thesis using ok r by (simp add: onMessage_def split: frame.splits)
next
  case (Some c)
  show ?thesis
  proof (cases fr)
    case Unparseable
    then show ?thesis using ok r by (simp add: onMessage_def)
  next
    case JsonNull
    then show ?thesis using r Some by (simp add: onMessage_def)
  next
    case (Json ms)
    show ?thesis
    proof (cases ms)
      case (Join fm ft fn fu)
      then show ?thesis
        using r Some Json timersOk_maybeStart[OF timersOk_enroll[OF ok]]
        by (simp add: onMessage_join)
    qed (use ok r Some Json in \<open>auto simp add: onMessage_def timersOk_def\<close>)
  qed
qed

lemma timersOk_init: "timersOk init"
  by (simp add: timersOk_def timersInv_def init_def)

lemma timersOk_onConnection: "timersOk st \<Longrightarrow> timersOk (onConnection st)"
  by (simp add: timersOk_def onConnection_def Let_def uid_def)

lemma timersOk_step: "timersOk st \<Longrightarrow> step e st = Inr st' \<Longrightarrow> timersOk st'"
proof (cases e)
  case Connection
  then show "timersOk st \<Longrightarrow> step e st = Inr st' \<Longrightarrow> timersOk st'"
    using timersOk_onConnection by auto
next
  case (Message w fr now)
  then show "timersOk st \<Longrightarrow> step e st = Inr st' \<Longrightarrow> timersOk st'"
    using timersOk_onMessage by auto
next
  case (Close w)
  have "timersOk st \<Longrightarrow> timersOk (closeSocket w st)" by (simp add: timersOk_def)
  then show "timersOk st \<Longrightarrow> step e st = Inr st' \<Longrightarrow> timersOk st'"
    using Close timersOk_cleanup by auto
next
  case (Error w)
  have "timersOk st \<Longrightarrow> timersOk (closeSocket w st)" by (simp add: timersOk_def)
  then show "timersOk st \<Longrightarrow> step e st = Inr st' \<Longrightarrow> timersOk st'"
    using Error timersOk_cleanup by auto
next
  case (Timeout h)
  then show "timersOk st \<Longrightarrow> step e st = Inr st' \<Longrightarrow> timersOk st'"
    using timersOk_onTimeout by auto
qed

lemma timersOk_run: "timersOk st \<Longrightarrow> run es st = Inr st' \<Longrightarrow> timersOk st'"
proof (induction es arbitrary: st)
  case Nil
  then show ?case by simp
next
  case (Cons e es)
  then show ?case by (auto split: sum.splits dest: timersOk_step)
qed


lemma createRoom_no_new_timer:
  assumes r: "createRoomFromQueue m t n st = Inr st'" and h: "timeouts st' h = Some v"
  shows "timeouts st h = Some v"
proof -
  from createRoom_Inr_cases[OF r] show ?thesis
  proof
    assume "st' = st" then show ?thesis using h by simp
  next
    assume "\<exists>b. waiting st (keyOf m t) = Some b \<and> n \<noteq> 0
                        \<and> (\<forall>s\<in>set (take n (queue b)). clients st s \<noteq> None)"
    then obtain b where b: "waiting st (keyOf m t) = Some b" and n: "n \<noteq> 0"
      and reg: "\<forall>s\<in>set (take n (queue b)). clients st s \<noteq> None" by blast
    from createRoom_ok[OF b n reg] r have
      "timeouts st' = (if drop n (queue b) = [] then timeouts (clearTimer (timer b) st) else timeouts st)"
      by auto
    then show ?thesis using h
      by (auto simp add: timeouts_clearTimer split: if_splits option.splits)
  qed
qed

lemma cleanup_no_new_timer:
  "timeouts (cleanup w st) h = Some v \<Longrightarrow> timeouts st h = Some v"
  by (auto simp add: cleanup_def leaveQueue_def Let_def timeouts_clearTimer
        split: option.splits if_splits)

lemma onTimeout_no_new_timer:
  assumes r: "onTimeout h0 st = Inr st'" and h: "timeouts st' h = Some v"
  shows "timeouts st h = Some v"
proof (cases "timeouts st h0")
  case None
  then show ?thesis using r h by (simp add: onTimeout_def)
next
  case (Some x)
  obtain m t d where x: "x = (m, t, d)" by (cases x) auto
  let ?st0 = "st\<lparr>timeouts := (timeouts st)(h0 := None)\<rparr>"
  have "timeouts ?st0 h = Some v"
  proof (cases "waiting ?st0 (keyOf m t)")
    case None
    then show ?thesis using r h Some x by (simp add: onTimeout_def timerCallback_def)
  next
    case (Some b)
    let ?st1 = "?st0\<lparr>waiting := (waiting ?st0)(keyOf m t \<mapsto> b\<lparr>timer := None\<rparr>)\<rparr>"
    have "st' = ?st1 \<or> createRoomFromQueue m t (min (maxPlayers m) (length (queue b))) ?st1 = Inr st'"
      using r \<open>timeouts st h0 = Some x\<close> x Some
      by (auto simp add: onTimeout_def timerCallback_def Let_def split: if_splits)
    then show ?thesis
    proof
      assume "st' = ?st1" then show ?thesis using h by simp
    next
      assume "createRoomFromQueue m t (min (maxPlayers m) (length (queue b))) ?st1 = Inr st'"
      from createRoom_no_new_timer[OF this h] show ?thesis by simp
    qed
  qed
  then show ?thesis by (simp split: if_splits)
qed

lemma maybeStart_new_timer:
  assumes r: "maybeStart now m t st = Inr st'" and h: "timeouts st' h = Some v"
      and new: "timeouts st h = None"
  shows "v = (m, t, 6500) \<and> (\<exists>b. waiting st (keyOf m t) = Some b \<and> timer b = None)"
proof (cases "waiting st (keyOf m t)")
  case None
  then show ?thesis using r h new by (simp add: maybeStart_def)
next
  case (Some b)
  show ?thesis
    using r h new Some
    by (auto simp add: maybeStart_def Let_def setTimeout_def
          split: if_splits dest: createRoom_no_new_timer)
qed

lemma onMessage_new_timer:
  assumes r: "onMessage now w fr st = Inr st'" and h: "timeouts st' h = Some (m, t, d)"
      and new: "timeouts st h = None"
  shows "\<forall>b. waiting st (keyOf m t) = Some b \<longrightarrow> timer b = None"
proof (cases "clients st w")
  case None
  then show ?thesis using r h new by (simp add: onMessage_def split: frame.splits)
next
  case (Some c)
  show ?thesis
  proof (cases fr)
    case Unparseable
    then show ?thesis using r h new by (simp add: onMessage_def)
  next
    case JsonNull
    then show ?thesis using r Some by (simp add: onMessage_def)
  next
    case (Json ms)
    show ?thesis
    proof (cases ms)
      case (Join fm ft fn fu)
      let ?st3 = "enroll w c fm ft fn fu st"
      let ?m = "strOr fm ''ONLINEPVP''" and ?t = "tierOr ft"
      have r3: "maybeStart now ?m ?t ?st3 = Inr st'"
        using r Some Json Join by (simp add: onMessage_join)
      have new3: "timeouts ?st3 h = None" using new by simp
      from maybeStart_new_timer[OF r3 h new3] obtain b where
        v: "m = ?m" "t = ?t" and b: "waiting ?st3 (keyOf ?m ?t) = Some b" "timer b = None"
        by auto
      from b have "timer (enqueue w (waiting st (keyOf ?m ?t))) = None"
        by (simp add: waiting_enroll)
      then show ?thesis using v by (auto simp add: timer_enqueue)
    qed (use r h new Some Json in \<open>auto simp add: onMessage_def\<close>)
  qed
qed

lemma step_new_timer:
  assumes r: "step e st = Inr st'" and h: "timeouts st' h = Some (m, t, d)"
      and new: "timeouts st h = None"
  shows "\<forall>b. waiting st (keyOf m t) = Some b \<longrightarrow> timer b = None"
proof (cases e)
  case Connection
  then have "timeouts st' = timeouts st" using r by (auto simp add: onConnection_def Let_def uid_def)
  then show ?thesis using h new by simp
next
  case (Message w fr now)
  then show ?thesis using r h new onMessage_new_timer by auto
next
  case (Close w)
  then have "st' = cleanup w (closeSocket w st)" using r by auto
  with h have "timeouts (closeSocket w st) h = Some (m, t, d)"
    using cleanup_no_new_timer by blast
  then show ?thesis using new by simp
next
  case (Error w)
  then have "st' = cleanup w (closeSocket w st)" using r by auto
  with h have "timeouts (closeSocket w st) h = Some (m, t, d)"
    using cleanup_no_new_timer by blast
  then show ?thesis using new by simp
next
  case (Timeout h0)
  then show ?thesis using r h new onTimeout_no_new_timer[of h0 st st' h "(m, t, d)"] by auto
qed

text \<open>
  Claim C9. In every state reached from the initial state by any sequence of events: two
  pending timers armed for the same bucket key are the same timer, so a bucket has at most
  one; every pending timer is the one whose handle its bucket holds, and the handle a
  bucket holds is a pending timer armed for that bucket (a handle is therefore empty again
  only once its timer has fired or was cancelled with the bucket); and whenever a further
  event arms a new timer, no timer was pending for the bucket it is armed for.
\<close>

theorem one_timer_per_bucket:
  assumes "run es init = Inr st"
  shows "(\<forall>h h' m t d m' t' d'.
            timeouts st h = Some (m, t, d) \<and> timeouts st h' = Some (m', t', d')
            \<and> keyOf m t = keyOf m' t' \<longrightarrow> h = h')
     \<and> (\<forall>h m t d. timeouts st h = Some (m, t, d) \<longrightarrow>
            (\<exists>b. waiting st (keyOf m t) = Some b \<and> timer b = Some h))
     \<and> (\<forall>k b h. waiting st k = Some b \<and> timer b = Some h \<longrightarrow>
            (\<exists>m t d. timeouts st h = Some (m, t, d) \<and> keyOf m t = k))
     \<and> (\<forall>e st' h m t d.
            step e st = Inr st' \<and> timeouts st' h = Some (m, t, d) \<and> timeouts st h = None \<longrightarrow>
            (\<forall>h0 m0 t0 d0. timeouts st h0 = Some (m0, t0, d0) \<longrightarrow> keyOf m0 t0 \<noteq> keyOf m t))"
proof -
  have ok: "timersOk st" using timersOk_run[OF timersOk_init assms] .
  have T1: "\<And>h m t d. timeouts st h = Some (m, t, d) \<Longrightarrow>
        (\<exists>b. waiting st (keyOf m t) = Some b \<and> timer b = Some h)"
    using ok unfolding timersOk_def timersInv_def by blast
  have T2: "\<And>k b h. waiting st k = Some b \<Longrightarrow> timer b = Some h \<Longrightarrow>
        (\<exists>m t d. timeouts st h = Some (m, t, d) \<and> keyOf m t = k)"
    using ok unfolding timersOk_def timersInv_def by blast
  have a: "\<forall>h h' m t d m' t' d'.
            timeouts st h = Some (m, t, d) \<and> timeouts st h' = Some (m', t', d')
            \<and> keyOf m t = keyOf m' t' \<longrightarrow> h = h'"
  proof (intro allI impI)
    fix h h' m t d m' t' d'
    assume x: "timeouts st h = Some (m, t, d) \<and> timeouts st h' = Some (m', t', d')
            \<and> keyOf m t = keyOf m' t'"
    from x T1[of h m t d] obtain b where b: "waiting st (keyOf m t) = Some b" "timer b = Some h"
      by blast
    from x T1[of h' m' t' d'] obtain b' where b': "waiting st (keyOf m' t') = Some b'" "timer b' = Some h'"
      by blast
    from x b b' have "b = b'" by simp
    with b b' show "h = h'" by simp
  qed
  have d: "\<forall>e st' h m t d.
            step e st = Inr st' \<and> timeouts st' h = Some (m, t, d) \<and> timeouts st h = None \<longrightarrow>
            (\<forall>h0 m0 t0 d0. timeouts st h0 = Some (m0, t0, d0) \<longrightarrow> keyOf m0 t0 \<noteq> keyOf m t)"
  proof (intro allI impI)
    fix e st' h m t d h0 m0 t0 d0
    assume x: "step e st = Inr st' \<and> timeouts st' h = Some (m, t, d) \<and> timeouts st h = None"
      and y: "timeouts st h0 = Some (m0, t0, d0)"
    from x have idle: "\<forall>b. waiting st (keyOf m t) = Some b \<longrightarrow> timer b = None"
      using step_new_timer[of e st st' h m t d] by blast
    from T1[OF y] obtain b where "waiting st (keyOf m0 t0) = Some b" "timer b = Some h0" by blast
    with idle show "keyOf m0 t0 \<noteq> keyOf m t" by auto
  qed
  have b: "\<forall>h m t d. timeouts st h = Some (m, t, d) \<longrightarrow>
            (\<exists>b. waiting st (keyOf m t) = Some b \<and> timer b = Some h)"
    using T1 by blast
  have c: "\<forall>k b h. waiting st k = Some b \<and> timer b = Some h \<longrightarrow>
            (\<exists>m t d. timeouts st h = Some (m, t, d) \<and> keyOf m t = k)"
    using T2 by blast
  show ?thesis by (rule conjI[OF a conjI[OF b conjI[OF c d]]])
qed


theorem one_timer_per_bucket_witness:
  "run [Connection, Connection, joinEv 0 ''ONLINEPVP'' 1, joinEv 1 ''ONLINEPVP'' 1] init
     = Inr twoQueued
   \<and> timeouts twoQueued 0 = Some (''ONLINEPVP'', 1, 6500)
   \<and> (\<exists>b. waiting twoQueued (keyOf ''ONLINEPVP'' 1) = Some b \<and> timer b = Some 0)"
proof -
  have r: "run [Connection, Connection, joinEv 0 ''ONLINEPVP'' 1, joinEv 1 ''ONLINEPVP'' 1] init
             = Inr twoQueued"
    by (simp add: twoQueued_def run_defs)
  from one_timer_per_bucket[OF r]
  have "\<forall>h m t d. timeouts twoQueued h = Some (m, t, d) \<longrightarrow>
            (\<exists>b. waiting twoQueued (keyOf m t) = Some b \<and> timer b = Some h)"
    by blast
  with r twoQueued_fields(7) show ?thesis by blast
qed

section \<open>Sessions and rooms\<close>

lemma roomsInvI:
  assumes "\<And>w c rid r. cl w = Some c \<Longrightarrow> c_roomId c = Some rid \<Longrightarrow> rm rid = Some r \<Longrightarrow> w \<in> set (sockets r)"
      and "\<And>rid r w c. rm rid = Some r \<Longrightarrow> w \<in> set (sockets r) \<Longrightarrow> cl w = Some c \<Longrightarrow> c_roomId c \<noteq> None"
      and "\<And>w c rid. cl w = Some c \<Longrightarrow> c_roomId c = Some rid \<Longrightarrow> rid < nu"
      and "\<And>rid r w. rm rid = Some r \<Longrightarrow> w \<in> set (sockets r) \<Longrightarrow> w < nw"
      and "\<And>w c. cl w = Some c \<Longrightarrow> w < nw"
      and "\<And>k b w. wt k = Some b \<Longrightarrow> w \<in> set (queue b) \<Longrightarrow> w < nw"
  shows "roomsInv cl rm wt nu nw"
  unfolding roomsInv_def using assms by blast

lemma roomsInvD:
  assumes "roomsInv cl rm wt nu nw"
  shows "\<And>w c rid r. cl w = Some c \<Longrightarrow> c_roomId c = Some rid \<Longrightarrow> rm rid = Some r \<Longrightarrow> w \<in> set (sockets r)"
    and "\<And>rid r w c. rm rid = Some r \<Longrightarrow> w \<in> set (sockets r) \<Longrightarrow> cl w = Some c \<Longrightarrow> c_roomId c \<noteq> None"
    and "\<And>w c rid. cl w = Some c \<Longrightarrow> c_roomId c = Some rid \<Longrightarrow> rid < nu"
    and "\<And>rid r w. rm rid = Some r \<Longrightarrow> w \<in> set (sockets r) \<Longrightarrow> w < nw"
    and "\<And>w c. cl w = Some c \<Longrightarrow> w < nw"
    and "\<And>k b w. wt k = Some b \<Longrightarrow> w \<in> set (queue b) \<Longrightarrow> w < nw"
  using assms unfolding roomsInv_def by blast+

lemma roomsOk_init: "roomsOk init"
  by (simp add: roomsOk_def roomsInv_def init_def)

lemma roomsInv_connect:
  assumes inv: "roomsInv cl rm wt nu nw" and c0: "c_roomId c0 = None"
  shows "roomsInv (cl(nw \<mapsto> c0)) rm wt (Suc nu) (Suc nw)"
proof (rule roomsInvI)
  note D = roomsInvD[OF inv]
  { fix w c rid r
    assume "(cl(nw \<mapsto> c0)) w = Some c" "c_roomId c = Some rid" "rm rid = Some r"
    then show "w \<in> set (sockets r)" using D(1) c0 by (cases "w = nw") auto }
  { fix rid r w c
    assume a: "rm rid = Some r" "w \<in> set (sockets r)" "(cl(nw \<mapsto> c0)) w = Some c"
    from D(4)[OF a(1,2)] have "w \<noteq> nw" by simp
    with a show "c_roomId c \<noteq> None" using D(2) by auto }
  { fix w c rid
    assume "(cl(nw \<mapsto> c0)) w = Some c" "c_roomId c = Some rid"
    then show "rid < Suc nu" using D(3) c0 by (cases "w = nw") (auto simp: less_Suc_eq) }
  { fix rid r w
    assume "rm rid = Some r" "w \<in> set (sockets r)"
    then show "w < Suc nw" using D(4) less_Suc_eq by blast }
  { fix w c
    assume "(cl(nw \<mapsto> c0)) w = Some c"
    then show "w < Suc nw" using D(5) by (cases "w = nw") (auto simp: less_Suc_eq) }
  { fix k b w
    assume "wt k = Some b" "w \<in> set (queue b)"
    then show "w < Suc nw" using D(6) less_Suc_eq by blast }
qed

lemma roomsInv_shrink:
  assumes inv: "roomsInv cl rm wt nu nw"
      and cl: "\<And>w c. cl' w = Some c \<Longrightarrow> cl w = Some c"
      and rm: "\<And>i r. rm' i = Some r \<Longrightarrow> rm i = Some r"
      and wt: "\<And>k b w. wt' k = Some b \<Longrightarrow> w \<in> set (queue b) \<Longrightarrow> \<exists>b0. wt k = Some b0 \<and> w \<in> set (queue b0)"
  shows "roomsInv cl' rm' wt' nu nw"
proof (rule roomsInvI)
  note D = roomsInvD[OF inv]
  { fix w c rid r
    assume "cl' w = Some c" "c_roomId c = Some rid" "rm' rid = Some r"
    then show "w \<in> set (sockets r)" using D(1) cl rm by blast }
  { fix rid r w c
    assume "rm' rid = Some r" "w \<in> set (sockets r)" "cl' w = Some c"
    then show "c_roomId c \<noteq> None" using D(2) cl rm by blast }
  { fix w c rid
    assume "cl' w = Some c" "c_roomId c = Some rid"
    then show "rid < nu" using D(3) cl by blast }
  { fix rid r w
    assume "rm' rid = Some r" "w \<in> set (sockets r)"
    then show "w < nw" using D(4) rm by blast }
  { fix w c
    assume "cl' w = Some c"
    then show "w < nw" using D(5) cl by blast }
  { fix k b w
    assume "wt' k = Some b" "w \<in> set (queue b)"
    then show "w < nw" using D(6) wt by blast }
qed


lemma roomsInv_enroll:
  assumes inv: "roomsInv cl rm wt nu nw" and c: "cl w = Some c"
      and c1: "c_roomId c1 = c_roomId c"
      and q: "\<And>x. x \<in> set (queue b1) \<Longrightarrow> x = w \<or> (\<exists>b0. wt k = Some b0 \<and> x \<in> set (queue b0))"
  shows "roomsInv (cl(w \<mapsto> c1)) rm (wt(k \<mapsto> b1)) nu nw"
proof (rule roomsInvI)
  note D = roomsInvD[OF inv]
  { fix w' c' rid r
    assume a: "(cl(w \<mapsto> c1)) w' = Some c'" "c_roomId c' = Some rid" "rm rid = Some r"
    show "w' \<in> set (sockets r)"
    proof (cases "w' = w")
      case True
      with a(1) have "c' = c1" by simp
      then have "c_roomId c = Some rid" using c1 a(2) by simp
      from D(1)[OF c this a(3)] show ?thesis using True by simp
    next
      case False
      with a(1) have "cl w' = Some c'" by simp
      from D(1)[OF this a(2) a(3)] show ?thesis .
    qed }
  { fix rid r w' c'
    assume a: "rm rid = Some r" "w' \<in> set (sockets r)" "(cl(w \<mapsto> c1)) w' = Some c'"
    show "c_roomId c' \<noteq> None"
    proof (cases "w' = w")
      case True
      with a(3) have "c' = c1" by simp
      moreover from D(2)[OF a(1) _ c] a(2) True have "c_roomId c \<noteq> None" by simp
      ultimately show ?thesis using c1 by simp
    next
      case False
      with a(3) have "cl w' = Some c'" by simp
      from D(2)[OF a(1) a(2) this] show ?thesis .
    qed }
  { fix w' c' rid
    assume a: "(cl(w \<mapsto> c1)) w' = Some c'" "c_roomId c' = Some rid"
    show "rid < nu"
    proof (cases "w' = w")
      case True
      with a(1) have "c' = c1" by simp
      then have "c_roomId c = Some rid" using c1 a(2) by simp
      from D(3)[OF c this] show ?thesis .
    next
      case False
      with a(1) have "cl w' = Some c'" by simp
      from D(3)[OF this a(2)] show ?thesis .
    qed }
  { fix rid r w'
    assume "rm rid = Some r" "w' \<in> set (sockets r)"
    then show "w' < nw" using D(4) by blast }
  { fix w' c'
    assume "(cl(w \<mapsto> c1)) w' = Some c'"
    then show "w' < nw" using D(5) c by (cases "w' = w") auto }
  { fix k' b w'
    assume a: "(wt(k \<mapsto> b1)) k' = Some b" "w' \<in> set (queue b)"
    show "w' < nw"
    proof (cases "k' = k")
      case True
      with a have "w' \<in> set (queue b1)" by simp
      from q[OF this] show ?thesis using D(5)[OF c] D(6) by blast
    next
      case False
      with a show ?thesis using D(6) by auto
    qed }
qed

lemma roomsInv_create:
  assumes inv: "roomsInv cl rm wt nu nw"
      and lt: "\<And>s. s \<in> set socks \<Longrightarrow> s < nw"
      and r: "sockets r = socks"
      and cl': "\<And>x. cl' x = (if x \<in> set socks
                                 then map_option (\<lambda>c. c\<lparr>c_roomId := Some nu\<rparr>) (cl x) else cl x)"
  shows "roomsInv cl' (rm(nu \<mapsto> r)) wt (Suc nu) nw"
proof (rule roomsInvI)
  note D = roomsInvD[OF inv]
  { fix w c rid r'
    assume a: "cl' w = Some c" "c_roomId c = Some rid" "(rm(nu \<mapsto> r)) rid = Some r'"
    show "w \<in> set (sockets r')"
    proof (cases "w \<in> set socks")
      case True
      with a(1,2) cl'[of w] have "rid = nu" by auto
      with a(3) r True show ?thesis by auto
    next
      case False
      with a(1) cl'[of w] have c: "cl w = Some c" by simp
      from D(3)[OF c a(2)] have "rid \<noteq> nu" by simp
      with a(3) have "rm rid = Some r'" by simp
      from D(1)[OF c a(2) this] show ?thesis .
    qed }
  { fix rid r' w c
    assume a: "(rm(nu \<mapsto> r)) rid = Some r'" "w \<in> set (sockets r')" "cl' w = Some c"
    show "c_roomId c \<noteq> None"
    proof (cases "w \<in> set socks")
      case True
      with a(3) cl'[of w] show ?thesis by auto
    next
      case False
      with a(3) cl'[of w] have c: "cl w = Some c" by simp
      from False a(1,2) r have "rid \<noteq> nu" by auto
      with a(1) have "rm rid = Some r'" by simp
      from D(2)[OF this a(2) c] show ?thesis .
    qed }
  { fix w c rid
    assume a: "cl' w = Some c" "c_roomId c = Some rid"
    show "rid < Suc nu"
    proof (cases "w \<in> set socks")
      case True
      with a cl'[of w] show ?thesis by auto
    next
      case False
      with a(1) cl'[of w] have c: "cl w = Some c" by simp
      from D(3)[OF c a(2)] show ?thesis by simp
    qed }
  { fix rid r' w
    assume a: "(rm(nu \<mapsto> r)) rid = Some r'" "w \<in> set (sockets r')"
    show "w < nw"
    proof (cases "rid = nu")
      case True
      with a r lt show ?thesis by auto
    next
      case False
      with a D(4) show ?thesis by auto
    qed }
  { fix w c
    assume a: "cl' w = Some c"
    with cl'[of w] obtain c0 where "cl w = Some c0" by (cases "cl w") (auto split: if_splits)
    from D(5)[OF this] show "w < nw" . }
  { fix k b w
    assume "wt k = Some b" "w \<in> set (queue b)"
    then show "w < nw" using D(6) by blast }
qed

lemma roomsOk_onConnection: "roomsOk st \<Longrightarrow> roomsOk (onConnection st)"
  using roomsInv_connect[of "clients st" "rooms st" "waiting st" "nextUid st" "nextWs st"]
  by (simp add: roomsOk_def onConnection_def Let_def uid_def)

lemma rooms_cleanup_sub: "rooms (cleanup w st) i = Some r \<Longrightarrow> rooms st i = Some r"
  by (auto simp add: cleanup_def closeRoom_def Let_def split: option.splits if_splits)

lemma waiting_leaveQueue_sub:
  "waiting (leaveQueue w c st) k = Some b \<Longrightarrow> x \<in> set (queue b) \<Longrightarrow>
   \<exists>b0. waiting st k = Some b0 \<and> x \<in> set (queue b0)"
  by (auto simp add: leaveQueue_def Let_def split: option.splits if_splits)

lemma waiting_cleanup_sub:
  "waiting (cleanup w st) k = Some b \<Longrightarrow> x \<in> set (queue b) \<Longrightarrow>
   \<exists>b0. waiting st k = Some b0 \<and> x \<in> set (queue b0)"
  by (cases "clients st w") (auto simp add: cleanup_def Let_def dest: waiting_leaveQueue_sub)

lemma nexts_cleanup [simp]:
  "nextUid (cleanup w st) = nextUid st" "nextWs (cleanup w st) = nextWs st"
  by (auto simp add: cleanup_def Let_def closeRoom_def split: option.splits)

lemma roomsOk_cleanup:
  assumes "roomsOk st" shows "roomsOk (cleanup w st)"
  unfolding roomsOk_def nexts_cleanup
proof (rule roomsInv_shrink[OF assms[unfolded roomsOk_def]])
  fix w' c
  assume "clients (cleanup w st) w' = Some c"
  then show "clients st w' = Some c" by (simp add: clients_cleanup split: if_splits)
next
  fix i r
  assume "rooms (cleanup w st) i = Some r"
  then show "rooms st i = Some r" by (rule rooms_cleanup_sub)
next
  fix k b x
  assume "waiting (cleanup w st) k = Some b" "x \<in> set (queue b)"
  then show "\<exists>b0. waiting st k = Some b0 \<and> x \<in> set (queue b0)" by (rule waiting_cleanup_sub)
qed

lemma queue_enqueue:
  "x \<in> set (queue (enqueue w bo)) \<Longrightarrow> x = w \<or> (\<exists>b0. bo = Some b0 \<and> x \<in> set (queue b0))"
  by (auto simp add: enqueue_def Let_def split: option.splits if_splits)

lemma roomsOk_enroll:
  assumes ok: "roomsOk st" and c: "clients st w = Some c"
  shows "roomsOk (enroll w c fm ft fn fu st)"
  unfolding roomsOk_def enroll_fields waiting_enroll clients_enroll
  by (rule roomsInv_enroll[OF ok[unfolded roomsOk_def] c]) (auto dest: queue_enqueue)


lemma roomsOk_requeue:
  assumes ok: "roomsOk st"
      and same: "clients st' = clients st" "rooms st' = rooms st"
                "nextUid st' = nextUid st" "nextWs st' = nextWs st"
      and sub: "\<And>k b x. waiting st' k = Some b \<Longrightarrow> x \<in> set (queue b) \<Longrightarrow>
                  \<exists>b0. waiting st k = Some b0 \<and> x \<in> set (queue b0)"
  shows "roomsOk st'"
  unfolding roomsOk_def same
  by (rule roomsInv_shrink[OF ok[unfolded roomsOk_def]]) (auto dest: sub)

lemma roomsOk_createRoom:
  assumes ok: "roomsOk st" and r: "createRoomFromQueue m t n st = Inr st'"
  shows "roomsOk st'"
proof -
  from createRoom_Inr_cases[OF r] show ?thesis
  proof
    assume "st' = st" then show ?thesis using ok by simp
  next
    assume "\<exists>b. waiting st (keyOf m t) = Some b \<and> n \<noteq> 0
                        \<and> (\<forall>s\<in>set (take n (queue b)). clients st s \<noteq> None)"
    then obtain b where b: "waiting st (keyOf m t) = Some b" and n: "n \<noteq> 0"
      and reg: "\<forall>s\<in>set (take n (queue b)). clients st s \<noteq> None" by blast
    let ?R = "\<lparr> hostWs = firstOf (take n (queue b)), sockets = take n (queue b),
             players = map (\<lambda>s. playerOf (the (clients st s))) (take n (queue b)),
             r_mode = m, r_tier = t \<rparr>"
    from createRoom_ok[OF b n reg] r have
      rm: "rooms st' = (rooms st)(nextUid st \<mapsto> ?R)"
      and wt: "waiting st' = (if drop n (queue b) = [] then (waiting st)(keyOf m t := None)
                      else (waiting st)(keyOf m t \<mapsto> b\<lparr>queue := drop n (queue b)\<rparr>))"
      and cl: "\<And>x. clients st' x = (if x \<in> set (take n (queue b))
                  then map_option (\<lambda>c. c\<lparr>c_roomId := Some (nextUid st)\<rparr>) (clients st x)
                  else clients st x)"
      and nu: "nextUid st' = Suc (nextUid st)" and nw: "nextWs st' = nextWs st"
      by auto
    note D = roomsInvD[OF ok[unfolded roomsOk_def]]
    have sub: "\<And>k b' x. waiting st' k = Some b' \<Longrightarrow> x \<in> set (queue b') \<Longrightarrow>
                  \<exists>b0. waiting st k = Some b0 \<and> x \<in> set (queue b0)"
      using wt b by (auto split: if_splits dest: in_set_dropD)
    have inv1: "roomsInv (clients st) (rooms st) (waiting st') (nextUid st) (nextWs st)"
      by (rule roomsInv_shrink[OF ok[unfolded roomsOk_def]]) (auto dest: sub)
    have lt: "\<And>s. s \<in> set (take n (queue b)) \<Longrightarrow> s < nextWs st"
      using D(6)[OF b] by (auto dest: in_set_takeD)
    have "roomsInv (clients st') ((rooms st)(nextUid st \<mapsto> ?R)) (waiting st')
            (Suc (nextUid st)) (nextWs st)"
      by (rule roomsInv_create[OF inv1 lt _ cl]) simp_all
    then show ?thesis by (simp add: roomsOk_def rm nu nw)
  qed
qed

lemma roomsOk_maybeStart:
  assumes ok: "roomsOk st" and r: "maybeStart now m t st = Inr st'"
  shows "roomsOk st'"
proof (cases "waiting st (keyOf m t)")
  case None
  then show ?thesis using ok r by (simp add: maybeStart_def)
next
  case (Some b)
  let ?arm = "st\<lparr>timeouts := (timeouts st)(nextTimeout st \<mapsto> (m, t, 6500)),
                  nextTimeout := Suc (nextTimeout st),
                  waiting := (waiting st)(keyOf m t \<mapsto> b\<lparr>timer := Some (nextTimeout st), startedAt := now\<rparr>)\<rparr>"
  have arm: "roomsOk ?arm"
    by (rule roomsOk_requeue[OF ok]) (use Some in \<open>auto split: if_splits\<close>)
  show ?thesis
    using r Some ok arm
    by (auto simp add: maybeStart_def Let_def setTimeout_def
          split: if_splits dest: roomsOk_createRoom)
qed

lemma roomsOk_onTimeout:
  assumes ok: "roomsOk st" and r: "onTimeout h st = Inr st'"
  shows "roomsOk st'"
proof (cases "timeouts st h")
  case None
  then show ?thesis using ok r by (simp add: onTimeout_def)
next
  case (Some v)
  obtain m t d where v: "v = (m, t, d)" by (cases v) auto
  let ?st0 = "st\<lparr>timeouts := (timeouts st)(h := None)\<rparr>"
  have ok0: "roomsOk ?st0" using ok by (simp add: roomsOk_def)
  show ?thesis
  proof (cases "waiting st (keyOf m t)")
    case None
    then show ?thesis using r Some v ok0 by (simp add: onTimeout_def timerCallback_def)
  next
    case (Some b)
    let ?st1 = "?st0\<lparr>waiting := (waiting ?st0)(keyOf m t \<mapsto> b\<lparr>timer := None\<rparr>)\<rparr>"
    have ok1: "roomsOk ?st1"
      by (rule roomsOk_requeue[OF ok]) (use Some in \<open>auto split: if_splits\<close>)
    have "st' = ?st1 \<or> createRoomFromQueue m t (min (maxPlayers m) (length (queue b))) ?st1 = Inr st'"
      using r \<open>timeouts st h = Some v\<close> v Some
      by (auto simp add: onTimeout_def timerCallback_def Let_def split: if_splits)
    then show ?thesis using ok1 roomsOk_createRoom by blast
  qed
qed

lemma roomsOk_onMessage:
  assumes ok: "roomsOk st" and r: "onMessage now w fr st = Inr st'"
  shows "roomsOk st'"
proof (cases "clients st w")
  case None
  then show ?thesis using ok r by (simp add: onMessage_def split: frame.splits)
next
  case (Some c)
  show ?thesis
  proof (cases fr)
    case Unparseable
    then show ?thesis using ok r by (simp add: onMessage_def)
  next
    case JsonNull
    then show ?thesis using r Some by (simp add: onMessage_def)
  next
    case (Json ms)
    show ?thesis
    proof (cases ms)
      case (Join fm ft fn fu)
      then show ?thesis
        using r Some Json roomsOk_maybeStart[OF roomsOk_enroll[OF ok Some]]
        by (simp add: onMessage_join)
    qed (use ok r Some Json in \<open>auto simp add: onMessage_def roomsOk_def\<close>)
  qed
qed

lemma roomsOk_step: "roomsOk st \<Longrightarrow> step e st = Inr st' \<Longrightarrow> roomsOk st'"
proof (cases e)
  case Connection
  then show "roomsOk st \<Longrightarrow> step e st = Inr st' \<Longrightarrow> roomsOk st'"
    using roomsOk_onConnection by auto
next
  case (Message w fr now)
  then show "roomsOk st \<Longrightarrow> step e st = Inr st' \<Longrightarrow> roomsOk st'"
    using roomsOk_onMessage by auto
next
  case (Close w)
  have "roomsOk st \<Longrightarrow> roomsOk (closeSocket w st)" by (simp add: roomsOk_def)
  then show "roomsOk st \<Longrightarrow> step e st = Inr st' \<Longrightarrow> roomsOk st'"
    using Close roomsOk_cleanup by auto
next
  case (Error w)
  have "roomsOk st \<Longrightarrow> roomsOk (closeSocket w st)" by (simp add: roomsOk_def)
  then show "roomsOk st \<Longrightarrow> step e st = Inr st' \<Longrightarrow> roomsOk st'"
    using Error roomsOk_cleanup by auto
next
  case (Timeout h)
  then show "roomsOk st \<Longrightarrow> step e st = Inr st' \<Longrightarrow> roomsOk st'"
    using roomsOk_onTimeout by auto
qed

lemma roomsOk_run: "roomsOk st \<Longrightarrow> run es st = Inr st' \<Longrightarrow> roomsOk st'"
proof (induction es arbitrary: st)
  case Nil
  then show ?case by simp
next
  case (Cons e es)
  then show ?case by (auto split: sum.splits dest: roomsOk_step)
qed

text \<open>
  Claim C5 says that in every reachable state a session has a room reference exactly when
  it is a member of a current room, and that no connection is in a queue and in a room at
  once. Neither run below crashes. After \<open>staleReference\<close> the session of connection 1
  still refers to room 2, and there is no room at all. After \<open>queuedWhileMatched\<close>
  connection 0 is queued in the bucket \<^verbatim>\<open>ONLINE1V1|1\<close> and is a member of room 2, to which
  its session refers.
\<close>

theorem session_room_invariant_fails:
  "\<not> crashes staleReference
   \<and> map_option c_roomId (clients (final staleReference) 1) = Some (Some 2)
   \<and> dom (rooms (final staleReference)) = {}
   \<and> \<not> crashes queuedWhileMatched
   \<and> map_option queue (waiting (final queuedWhileMatched) ''ONLINE1V1|1'') = Some [0]
   \<and> map_option sockets (rooms (final queuedWhileMatched) 2) = Some [0, 1]
   \<and> map_option c_roomId (clients (final queuedWhileMatched) 0) = Some (Some 2)"
  by (simp add: staleReference_def queuedWhileMatched_def run_defs)

text \<open>
  Claim C5 as amended. In every state reached from the initial state by any sequence of
  events: a session whose room reference names a room that exists is in the member list of
  that room, and a registered connection in the member list of a room that exists has a
  room reference. (A room reference is not reset when its room is dissolved, and nothing
  is said about a connection being in a queue and in a room at once.)
\<close>

theorem room_reference_and_membership:
  assumes "run es init = Inr st"
  shows "(\<forall>w c rid r. clients st w = Some c \<and> c_roomId c = Some rid \<and> rooms st rid = Some r
            \<longrightarrow> w \<in> set (sockets r))
     \<and> (\<forall>rid r w c. rooms st rid = Some r \<and> w \<in> set (sockets r) \<and> clients st w = Some c
            \<longrightarrow> c_roomId c \<noteq> None)"
proof -
  have "roomsOk st" using roomsOk_run[OF roomsOk_init assms] .
  then show ?thesis unfolding roomsOk_def roomsInv_def by blast
qed


theorem room_reference_and_membership_witness:
  "run [Connection, Connection, joinEv 0 ''ONLINE1V1'' 1, joinEv 1 ''ONLINE1V1'' 1] init
     = Inr matched
   \<and> (\<exists>r. rooms matched 2 = Some r \<and> 1 \<in> set (sockets r))"
proof -
  have r: "run [Connection, Connection, joinEv 0 ''ONLINE1V1'' 1, joinEv 1 ''ONLINE1V1'' 1] init
             = Inr matched"
    by (simp add: matched_def run_defs)
  from room_reference_and_membership[OF r]
  have "\<forall>w c rid r. clients matched w = Some c \<and> c_roomId c = Some rid \<and> rooms matched rid = Some r
            \<longrightarrow> w \<in> set (sockets r)"
    by blast
  from this[rule_format, of 1 _ 2, OF conjI, OF _ conjI] matched_fields(2,3)
  have "1 \<in> set (sockets \<lparr> hostWs = Some 0, sockets = [0, 1],
      players = [\<lparr> p_id = 0, p_tankName = Some ''Tank'', p_username = [] \<rparr>,
                 \<lparr> p_id = 1, p_tankName = Some ''Tank'', p_username = [] \<rparr>],
      r_mode = ''ONLINE1V1'', r_tier = 1 \<rparr>)"
    by simp
  with r matched_fields(3) show ?thesis by simp
qed

end
